theory Spec2Isabelle
  imports Complex_Main "HOL-Library.AList"
begin

chapter \<open>The program\<close>

section \<open>Python values and errors\<close>

text \<open>
  Exceptions of the program are values: every \<open>raise\<close> of the source and every
  failing library call is an \<open>Inl\<close> of the result type \<open>py_error + 'a\<close>.
  Each exception carries the text that \<open>str(e)\<close> gives.
\<close>

datatype py_error =
    FileNotFoundError string
  | IsADirectoryError string
  | PermissionError string
  | UnicodeDecodeError string
  | ValueError string
  | TypeError string
  | AttributeError string
  | OverflowError string
  | JSONDecodeError string

fun str_of_error :: "py_error \<Rightarrow> string" where
  "str_of_error (FileNotFoundError m) = m"
| "str_of_error (IsADirectoryError m) = m"
| "str_of_error (PermissionError m) = m"
| "str_of_error (UnicodeDecodeError m) = m"
| "str_of_error (ValueError m) = m"
| "str_of_error (TypeError m) = m"
| "str_of_error (AttributeError m) = m"
| "str_of_error (OverflowError m) = m"
| "str_of_error (JSONDecodeError m) = m"

text \<open>
  A Python slice \<open>xs[i:j]\<close>: a negative index counts from the end, and both ends
  are clipped to the sequence.
\<close>

definition py_index :: "nat \<Rightarrow> int \<Rightarrow> nat" where
  "py_index n i = (if i < 0 then nat (int n + i) else min n (nat i))"

definition py_slice :: "'a list \<Rightarrow> int \<Rightarrow> int \<Rightarrow> 'a list" where
  "py_slice xs i j = drop (py_index (length xs) i) (take (py_index (length xs) j) xs)"

section \<open>Truncation of the content\<close>

text \<open>
  \<^verbatim>\<open>def truncate_content(content, max_chars):
    return content[:max_chars] if len(content) > max_chars else content\<close>

  \<open>max_chars\<close> is the integer argparse read (\<open>type=int\<close>): it may be negative.
\<close>

definition truncate_content :: "'a list \<Rightarrow> int \<Rightarrow> 'a list" where
  "truncate_content content max_chars =
     (if int (length content) > max_chars then py_slice content 0 max_chars else content)"

section \<open>The navigation of the configuration\<close>

text \<open>
  What \<open>yaml.load\<close> returns: a string, a list, a dict (its items in insertion order,
  which is the order of the file), or another scalar (a number, a boolean, null). The keys
  of a dict are the labels of the navigation; \<open>extract_files\<close> never looks at them.
\<close>

datatype yaml =
    YStr string
  | YList "yaml list"
  | YDict "(string \<times> yaml) list"
  | YOther

definition startswith :: "string \<Rightarrow> string \<Rightarrow> bool" where
  "startswith s p = (take (length p) s = p)"

text \<open>\<open>re.split\<close> with a pattern that is one literal character.\<close>

fun re_split :: "char \<Rightarrow> string \<Rightarrow> string list" where
  "re_split c [] = [[]]"
| "re_split c (x # xs) =
     (if x = c then [] # re_split c xs
      else (case re_split c xs of
              [] \<Rightarrow> [[x]]
            | piece # pieces \<Rightarrow> (x # piece) # pieces))"

text \<open>
  \<^verbatim>\<open>nav_files = []
def extract_files(item):
    if isinstance(item, dict):
        for key, value in item.items():
            if isinstance(value, list):
                for v in value:
                    extract_files(v)
            elif isinstance(value, str):
                if value.startswith("http://") or value.startswith("https://"):
                    return
                nav_files.append(re.split(r"#", value)[0])
    elif isinstance(item, list):
        for v in item:
            extract_files(v)\<close>

  The list \<open>nav_files\<close> the closure appends to is passed in and returned.
  \<open>extract_values\<close> is either loop over a list; \<open>extract_items\<close> is the loop over the
  items of a dict, which the \<open>return\<close> at an external link leaves: the items after the
  link are not visited.
\<close>

fun extract_files :: "yaml \<Rightarrow> string list \<Rightarrow> string list"
  and extract_values :: "yaml list \<Rightarrow> string list \<Rightarrow> string list"
  and extract_items :: "(string \<times> yaml) list \<Rightarrow> string list \<Rightarrow> string list"
where
  "extract_files (YDict items) nav_files = extract_items items nav_files"
| "extract_files (YList vs) nav_files = extract_values vs nav_files"
| "extract_files (YStr s) nav_files = nav_files"
| "extract_files YOther nav_files = nav_files"
| "extract_values [] nav_files = nav_files"
| "extract_values (v # vs) nav_files = extract_values vs (extract_files v nav_files)"
| "extract_items [] nav_files = nav_files"
| "extract_items ((key, YList vs) # rest) nav_files =
     extract_items rest (extract_values vs nav_files)"
| "extract_items ((key, YStr s) # rest) nav_files =
     (if startswith s ''http://'' \<or> startswith s ''https://'' then nav_files
      else extract_items rest (nav_files @ [hd (re_split CHR ''#'' s)]))"
| "extract_items ((key, YDict d) # rest) nav_files = extract_items rest nav_files"
| "extract_items ((key, YOther) # rest) nav_files = extract_items rest nav_files"

section \<open>The files\<close>

text \<open>
  The files the program reads. A path names a text file with its content, or something
  that exists but cannot be read as text: a directory and a file without read permission,
  on which \<open>open\<close> raises, and a file whose bytes are not UTF-8, on which \<open>read\<close>
  raises; or it names nothing. \<open>os.path.exists\<close> is true of all but the last. Two paths
  may name the same file: nothing is assumed about the map. The text of
  \<open>UnicodeDecodeError\<close> names the byte at fault; the model leaves that out.
\<close>

datatype fs_node = File string | Directory | NoPermission | NotUtf8

type_synonym filesystem = "string \<Rightarrow> fs_node option"

definition os_path_exists :: "filesystem \<Rightarrow> string \<Rightarrow> bool" where
  "os_path_exists fs path = (fs path \<noteq> None)"

definition open_read :: "filesystem \<Rightarrow> string \<Rightarrow> py_error + string" where
  "open_read fs path =
     (case fs path of
        None \<Rightarrow>
          Inl (FileNotFoundError
                 (''[Errno 2] No such file or directory: '' @ [CHR 0x27] @ path @ [CHR 0x27]))
      | Some Directory \<Rightarrow>
          Inl (IsADirectoryError
                 (''[Errno 21] Is a directory: '' @ [CHR 0x27] @ path @ [CHR 0x27]))
      | Some NoPermission \<Rightarrow>
          Inl (PermissionError
                 (''[Errno 13] Permission denied: '' @ [CHR 0x27] @ path @ [CHR 0x27]))
      | Some NotUtf8 \<Rightarrow>
          Inl (UnicodeDecodeError (CHR 0x27 # ''utf-8'' @ [CHR 0x27] @ '' codec can'' @ [CHR 0x27] @ ''t decode byte''))
      | Some (File text) \<Rightarrow> Inr text)"

section \<open>Loading the navigation\<close>

text \<open>\<open>config.get(key, default)\<close>: only a dict has the method.\<close>

definition config_get :: "yaml \<Rightarrow> string \<Rightarrow> yaml \<Rightarrow> py_error + yaml" where
  "config_get config key dflt =
     (case config of
        YDict items \<Rightarrow> Inr (case map_of items key of None \<Rightarrow> dflt | Some v \<Rightarrow> v)
      | _ \<Rightarrow> Inl (AttributeError ''object has no attribute 'get' ''))"

text \<open>
  \<^verbatim>\<open>def load_mkdocs_nav(mkdocs_config_path):
    if not os.path.exists(mkdocs_config_path):
        raise FileNotFoundError(f"Could not find {mkdocs_config_path}")
    with open(mkdocs_config_path, "r", encoding="utf-8") as f:
        config = yaml.load(f, Loader=CustomLoader)
    nav_files = []
    nav = config.get("nav", [])
    ...
    extract_files(nav)
    return nav_files\<close>

  The YAML parser is the library's: \<open>yaml_load\<close> is a parameter.
\<close>

definition load_mkdocs_nav ::
  "filesystem \<Rightarrow> (string \<Rightarrow> py_error + yaml) \<Rightarrow> string \<Rightarrow> py_error + string list" where
  "load_mkdocs_nav fs yaml_load mkdocs_config_path =
     (if \<not> os_path_exists fs mkdocs_config_path
      then Inl (FileNotFoundError (''Could not find '' @ mkdocs_config_path))
      else case open_read fs mkdocs_config_path of
             Inl e \<Rightarrow> Inl e
           | Inr text \<Rightarrow>
               (case yaml_load text of
                  Inl e \<Rightarrow> Inl e
                | Inr config \<Rightarrow>
                    (case config_get config ''nav'' (YList []) of
                       Inl e \<Rightarrow> Inl e
                     | Inr nav \<Rightarrow> Inr (extract_files nav []))))"

subsection \<open>The navigation as the specification words it\<close>

text \<open>
  The specification's traversal rule, for comparison with \<open>extract_files\<close>: a node is a
  label with a value; a value that is a sequence is entered, element by element; a value
  that is a string is a leaf. \<open>string_leaves\<close> lists the leaves depth first, left to right;
  \<open>accepted_references\<close> keeps those that are not external links and strips the fragment.
  A string that stands in a sequence without a label is not the value of a node, and is
  no leaf here; \<open>extract_files\<close> does not collect it either.
\<close>

definition is_external_link :: "string \<Rightarrow> bool" where
  "is_external_link s = (startswith s ''http://'' \<or> startswith s ''https://'')"

fun string_leaves :: "yaml \<Rightarrow> string list"
  and string_leaves_values :: "yaml list \<Rightarrow> string list"
  and string_leaves_items :: "(string \<times> yaml) list \<Rightarrow> string list"
where
  "string_leaves (YDict items) = string_leaves_items items"
| "string_leaves (YList vs) = string_leaves_values vs"
| "string_leaves (YStr s) = []"
| "string_leaves YOther = []"
| "string_leaves_values [] = []"
| "string_leaves_values (v # vs) = string_leaves v @ string_leaves_values vs"
| "string_leaves_items [] = []"
| "string_leaves_items ((key, YList vs) # rest) =
     string_leaves_values vs @ string_leaves_items rest"
| "string_leaves_items ((key, YStr s) # rest) = s # string_leaves_items rest"
| "string_leaves_items ((key, YDict d) # rest) = string_leaves_items rest"
| "string_leaves_items ((key, YOther) # rest) = string_leaves_items rest"

definition strip_fragment :: "string \<Rightarrow> string" where
  "strip_fragment s = takeWhile (\<lambda>c. c \<noteq> CHR ''#'') s"

definition accepted_references :: "yaml \<Rightarrow> string list" where
  "accepted_references nav =
     map strip_fragment (filter (\<lambda>s. \<not> is_external_link s) (string_leaves nav))"

text \<open>
  \<open>link_is_last\<close>: in every dict of the navigation, an external link is the value of the
  last item only. A navigation whose dicts have one item each (the usual form,
  \<^verbatim>\<open>- Label: value\<close>) is of this kind.
\<close>

fun link_is_last :: "yaml \<Rightarrow> bool"
  and link_is_last_values :: "yaml list \<Rightarrow> bool"
  and link_is_last_items :: "(string \<times> yaml) list \<Rightarrow> bool"
where
  "link_is_last (YDict items) = link_is_last_items items"
| "link_is_last (YList vs) = link_is_last_values vs"
| "link_is_last (YStr s) = True"
| "link_is_last YOther = True"
| "link_is_last_values [] = True"
| "link_is_last_values (v # vs) = (link_is_last v \<and> link_is_last_values vs)"
| "link_is_last_items [] = True"
| "link_is_last_items ((key, YList vs) # rest) =
     (link_is_last_values vs \<and> link_is_last_items rest)"
| "link_is_last_items ((key, YStr s) # rest) =
     ((if is_external_link s then rest = [] else True) \<and> link_is_last_items rest)"
| "link_is_last_items ((key, YDict d) # rest) = link_is_last_items rest"
| "link_is_last_items ((key, YOther) # rest) = link_is_last_items rest"

section \<open>Locating the content of a document\<close>

text \<open>
  \<open>str.find\<close> and \<open>str.rfind\<close> for one character: the index of the first and of the
  last occurrence, \<open>-1\<close> when there is none. Both run through the text once, counting.
\<close>

fun find_from :: "'a list \<Rightarrow> 'a \<Rightarrow> int \<Rightarrow> int" where
  "find_from [] c i = - 1"
| "find_from (x # xs) c i = (if x = c then i else find_from xs c (i + 1))"

definition py_find :: "'a list \<Rightarrow> 'a \<Rightarrow> int" where
  "py_find s c = find_from s c 0"

fun rfind_from :: "'a list \<Rightarrow> 'a \<Rightarrow> int \<Rightarrow> int \<Rightarrow> int" where
  "rfind_from [] c i found = found"
| "rfind_from (x # xs) c i found = rfind_from xs c (i + 1) (if x = c then i else found)"

definition py_rfind :: "'a list \<Rightarrow> 'a \<Rightarrow> int" where
  "py_rfind s c = rfind_from s c 0 (- 1)"

text \<open>
  \<open>os.path.join\<close> and \<open>os.path.dirname\<close> as \<open>posixpath\<close> defines them: a component
  that starts with the separator replaces what came before it; otherwise it is appended,
  after a separator unless the path so far is empty or ends with one.

  \<^verbatim>\<open>def join(a, *p):
    path = a
    for b in p:
        if b.startswith(sep): path = b
        elif not path or path.endswith(sep): path += b
        else: path += sep + b
    return path

def dirname(p):
    i = p.rfind(sep) + 1
    head = p[:i]
    if head and head != sep*len(head):
        head = head.rstrip(sep)
    return head\<close>
\<close>

definition join_step :: "string \<Rightarrow> string \<Rightarrow> string" where
  "join_step path b =
     (if startswith b ''/'' then b
      else if path = [] \<or> last path = CHR ''/'' then path @ b
      else path @ ''/'' @ b)"

definition os_path_join :: "string \<Rightarrow> string list \<Rightarrow> string" where
  "os_path_join a p = foldl join_step a p"

definition rstrip :: "char \<Rightarrow> string \<Rightarrow> string" where
  "rstrip c s = rev (dropWhile (\<lambda>x. x = c) (rev s))"

definition os_path_dirname :: "string \<Rightarrow> string" where
  "os_path_dirname p =
     (let i = py_rfind p CHR ''/'' + 1;
          head = py_slice p 0 i
      in if head \<noteq> [] \<and> head \<noteq> replicate (length head) CHR ''/''
         then rstrip CHR ''/'' head else head)"

text \<open>
  \<^verbatim>\<open>def read_file_content(file_path, config_path, clone_dir):
    with open(config_path, "r", encoding="utf-8") as f:
        config = yaml.load(f, Loader=CustomLoader)
    docs_dir = config.get("docs_dir", "docs")
    base = os.path.dirname(config_path)

    candidate = os.path.join(base, docs_dir, file_path)
    if os.path.exists(candidate):
        with open(candidate, "r", encoding="utf-8") as f:
            return f.read()
    candidate = os.path.join(base, file_path)
    if os.path.exists(candidate):
        with open(candidate, "r", encoding="utf-8") as f:
            return f.read()
    candidate = os.path.join(clone_dir, file_path)
    if os.path.exists(candidate):
        with open(candidate, "r", encoding="utf-8") as f:
            return f.read()
    raise FileNotFoundError(f"File '{file_path}' not found in expected locations.")\<close>

  \<open>os.path.join\<close> raises \<open>TypeError\<close> on a \<open>docs_dir\<close> that is not a string.
\<close>

definition read_file_content ::
  "filesystem \<Rightarrow> (string \<Rightarrow> py_error + yaml) \<Rightarrow> string \<Rightarrow> string \<Rightarrow> string \<Rightarrow> py_error + string"
where
  "read_file_content fs yaml_load file_path config_path clone_dir =
     (case open_read fs config_path of
        Inl e \<Rightarrow> Inl e
      | Inr text \<Rightarrow>
     (case yaml_load text of
        Inl e \<Rightarrow> Inl e
      | Inr config \<Rightarrow>
     (case config_get config ''docs_dir'' (YStr ''docs'') of
        Inl e \<Rightarrow> Inl e
      | Inr (YStr docs_dir) \<Rightarrow>
          (let base = os_path_dirname config_path in
           if os_path_exists fs (os_path_join base [docs_dir, file_path])
           then open_read fs (os_path_join base [docs_dir, file_path])
           else if os_path_exists fs (os_path_join base [file_path])
           then open_read fs (os_path_join base [file_path])
           else if os_path_exists fs (os_path_join clone_dir [file_path])
           then open_read fs (os_path_join clone_dir [file_path])
           else Inl (FileNotFoundError
                  (''File '' @ [CHR 0x27] @ file_path @ [CHR 0x27] @
                   '' not found in expected locations.'')))
      | Inr _ \<Rightarrow> Inl (TypeError ''expected str, bytes or os.PathLike object''))))"

section \<open>Interpreting the response\<close>

text \<open>
  What \<open>json.loads\<close> returns: a dict (its items in insertion order), a list, a string,
  an integer, a boolean or \<open>None\<close>.
\<close>

datatype json =
    JObject "(string \<times> json) list"
  | JArray "json list"
  | JString string
  | JInt int
  | JBool bool
  | JNull

text \<open>
  \<^verbatim>\<open>def parse_json_response(response_text):
    try:
        start = response_text.find('{')
        end = response_text.rfind('}') + 1
        if start == -1 or end == -1:
            raise ValueError("No valid JSON object found.")
        json_text = response_text[start:end]
        return json.loads(json_text)
    except Exception as e:
        return {"error": f"Error parsing JSON: {e}", "raw_response": response_text}\<close>

  \<open>parse_json_try\<close> is the body of the \<open>try\<close>, \<open>parse_failure\<close> the dict the handler
  builds, \<open>parse_json_response\<close> the function. The decoder is the library's: \<open>json_loads\<close>
  is a parameter, and whatever it raises is an \<open>Inl\<close>.
\<close>

definition brace_slice :: "string \<Rightarrow> string" where
  "brace_slice response_text =
     py_slice response_text (py_find response_text CHR ''{'') (py_rfind response_text CHR ''}'' + 1)"

definition parse_json_try :: "(string \<Rightarrow> py_error + json) \<Rightarrow> string \<Rightarrow> py_error + json" where
  "parse_json_try json_loads response_text =
     (let start = py_find response_text CHR ''{'';
          end' = py_rfind response_text CHR ''}'' + 1
      in if start = - 1 \<or> end' = - 1
         then Inl (ValueError ''No valid JSON object found.'')
         else json_loads (py_slice response_text start end'))"

definition parse_failure :: "py_error \<Rightarrow> string \<Rightarrow> json" where
  "parse_failure e response_text =
     JObject [(''error'', JString (''Error parsing JSON: '' @ str_of_error e)),
              (''raw_response'', JString response_text)]"

definition parse_json_response :: "(string \<Rightarrow> py_error + json) \<Rightarrow> string \<Rightarrow> json" where
  "parse_json_response json_loads response_text =
     (case parse_json_try json_loads response_text of
        Inr parsed \<Rightarrow> parsed
      | Inl e \<Rightarrow> parse_failure e response_text)"

text \<open>\<open>d.get(key)\<close> on a decoded value, \<open>None\<close> where the key is absent.\<close>

fun json_get :: "json \<Rightarrow> string \<Rightarrow> json option" where
  "json_get (JObject items) key = map_of items key"
| "json_get _ key = None"

subsection \<open>A decoder for concrete texts\<close>

text \<open>
  To run \<open>parse_json_response\<close> on a concrete text, a decoder for the JSON grammar:
  objects, arrays, strings with the two-character escapes, integers, \<open>true\<close>, \<open>false\<close>,
  \<open>null\<close>, and white space between the tokens. It stands for \<open>json.loads\<close> on such
  texts. The library also reads fractions, exponents, \<open>\u\<close> escapes, \<open>NaN\<close> and
  \<open>Infinity\<close>; here they are \<open>None\<close>, as is every text the library rejects. An object
  with a repeated key keeps the key's first position and its last value, as \<open>dict\<close> does.
  The fuel counts the nested values and the members still to read; a text of \<open>n\<close>
  characters is read with fuel \<open>n + 1\<close>, which is enough: no fuel decodes a text that
  \<open>json_decode\<close> does not (\<open>json_decode_fuel\<close>).
\<close>

definition is_ws :: "char \<Rightarrow> bool" where
  "is_ws c = (c = CHR '' '' \<or> c = CHR 0x09 \<or> c = CHR 0x0A \<or> c = CHR 0x0D)"

definition skip_ws :: "string \<Rightarrow> string" where
  "skip_ws s = dropWhile is_ws s"

definition is_digit :: "char \<Rightarrow> bool" where
  "is_digit c = ((of_char CHR ''0'' :: nat) \<le> of_char c \<and> (of_char c :: nat) \<le> of_char CHR ''9'')"

definition digit_value :: "char \<Rightarrow> nat" where
  "digit_value c = of_char c - of_char CHR ''0''"

definition digits_value :: "string \<Rightarrow> nat" where
  "digits_value ds = foldl (\<lambda>n c. 10 * n + digit_value c) 0 ds"

definition unescape :: "char \<Rightarrow> char option" where
  "unescape c =
     (if c = CHR 0x22 \<or> c = CHR 0x5C \<or> c = CHR ''/'' then Some c
      else if c = CHR ''b'' then Some (CHR 0x08)
      else if c = CHR ''f'' then Some (CHR 0x0C)
      else if c = CHR ''n'' then Some (CHR 0x0A)
      else if c = CHR ''r'' then Some (CHR 0x0D)
      else if c = CHR ''t'' then Some (CHR 0x09)
      else None)"

text \<open>The characters of a string after its opening quote, and the text after its closing one.\<close>

fun scan_string :: "string \<Rightarrow> (string \<times> string) option" where
  "scan_string [] = None"
| "scan_string [c] = (if c = CHR 0x22 then Some ([], []) else None)"
| "scan_string (c # d # cs) =
     (if c = CHR 0x22 then Some ([], d # cs)
      else if c = CHR 0x5C then
        (case unescape d of
           None \<Rightarrow> None
         | Some ch \<Rightarrow>
             (case scan_string cs of
                None \<Rightarrow> None
              | Some (chars, rest) \<Rightarrow> Some (ch # chars, rest)))
      else if (of_char c :: nat) < 0x20 then None
      else (case scan_string (d # cs) of
              None \<Rightarrow> None
            | Some (chars, rest) \<Rightarrow> Some (c # chars, rest)))"

text \<open>
  An integer: an optional minus sign, then \<open>0\<close> or digits that do not start with \<open>0\<close>.
  What follows may not begin a fraction or an exponent.
\<close>

definition scan_int :: "string \<Rightarrow> (json \<times> string) option" where
  "scan_int s =
     (let negative = (s \<noteq> [] \<and> hd s = CHR ''-'');
          body = (if negative then tl s else s);
          digits = (if body \<noteq> [] \<and> hd body = CHR ''0'' then ''0'' else takeWhile is_digit body);
          rest = drop (length digits) body
      in if digits = [] then None
         else if rest \<noteq> [] \<and> (hd rest = CHR ''.'' \<or> hd rest = CHR ''e'' \<or> hd rest = CHR ''E'')
         then None
         else Some (JInt (if negative then - int (digits_value digits) else int (digits_value digits)),
                    rest))"

fun scan_once :: "nat \<Rightarrow> string \<Rightarrow> (json \<times> string) option"
  and scan_members :: "nat \<Rightarrow> string \<Rightarrow> (string \<times> json) list \<Rightarrow> (json \<times> string) option"
  and scan_elements :: "nat \<Rightarrow> string \<Rightarrow> json list \<Rightarrow> (json \<times> string) option"
where
  "scan_once 0 s = None"
| "scan_once (Suc fuel) s =
     (if s = [] then None
      else if hd s = CHR 0x22 then
        (case scan_string (tl s) of
           None \<Rightarrow> None
         | Some (chars, rest) \<Rightarrow> Some (JString chars, rest))
      else if hd s = CHR ''{'' then
        (let r = skip_ws (tl s)
         in if r = [] then None
            else if hd r = CHR ''}'' then Some (JObject [], tl r)
            else if hd r = CHR 0x22 then scan_members fuel (tl r) []
            else None)
      else if hd s = CHR ''['' then
        (let r = skip_ws (tl s)
         in if r = [] then None
            else if hd r = CHR '']'' then Some (JArray [], tl r)
            else scan_elements fuel r [])
      else if startswith s ''null'' then Some (JNull, drop 4 s)
      else if startswith s ''true'' then Some (JBool True, drop 4 s)
      else if startswith s ''false'' then Some (JBool False, drop 5 s)
      else scan_int s)"
| "scan_members 0 s pairs = None"
| "scan_members (Suc fuel) s pairs =
     (case scan_string s of
        None \<Rightarrow> None
      | Some (key, r) \<Rightarrow>
          (let r1 = skip_ws r
           in if r1 = [] \<or> hd r1 \<noteq> CHR '':'' then None
              else (case scan_once fuel (skip_ws (tl r1)) of
                      None \<Rightarrow> None
                    | Some (v, r2) \<Rightarrow>
                        (let pairs' = AList.update key v pairs;
                             r3 = skip_ws r2
                         in if r3 = [] then None
                            else if hd r3 = CHR ''}'' then Some (JObject pairs', tl r3)
                            else if hd r3 = CHR '','' then
                              (let r4 = skip_ws (tl r3)
                               in if r4 = [] \<or> hd r4 \<noteq> CHR 0x22 then None
                                  else scan_members fuel (tl r4) pairs')
                            else None))))"
| "scan_elements 0 s elements = None"
| "scan_elements (Suc fuel) s elements =
     (case scan_once fuel s of
        None \<Rightarrow> None
      | Some (v, r) \<Rightarrow>
          (let r1 = skip_ws r
           in if r1 = [] then None
              else if hd r1 = CHR '']'' then Some (JArray (elements @ [v]), tl r1)
              else if hd r1 = CHR '','' then scan_elements fuel (skip_ws (tl r1)) (elements @ [v])
              else None))"

definition json_decode :: "string \<Rightarrow> json option" where
  "json_decode s =
     (case scan_once (Suc (length s)) (skip_ws s) of
        None \<Rightarrow> None
      | Some (v, rest) \<Rightarrow> if skip_ws rest = [] then Some v else None)"

text \<open>
  The decoder as \<open>parse_json_response\<close> calls it. The message is the library's for the
  empty text. For another text that the library rejects its message names the kind and
  the place of the fault, which the model does not compute: nothing below is stated of
  the message there.
\<close>

definition json_loads :: "string \<Rightarrow> py_error + json" where
  "json_loads s =
     (case json_decode s of
        Some v \<Rightarrow> Inr v
      | None \<Rightarrow> Inl (JSONDecodeError ''Expecting value: line 1 column 1 (char 0)''))"

section \<open>Dispatching the request\<close>

text \<open>
  What the program does to the world outside it is recorded as a list of events, in
  order: a document looked up, a prompt handed to \<open>send_request\<close>, one call of a
  provider's API, a \<open>time.sleep\<close>, a response handed to \<open>parse_json_response\<close>.
\<close>

datatype event =
    Located string
  | Dispatched string string
  | Requested string
  | Slept rat
  | Interpreted string string

text \<open>
  The providers are outside the program. A call takes the state of the world \<open>'w\<close>
  and gives the next one, with either the content of the response or, when anything in
  the \<open>try\<close> block raises, the text \<open>str(e)\<close> of the exception.
\<close>

record 'w backend =
  openai_create :: "'w \<Rightarrow> string \<Rightarrow> string \<Rightarrow> (string + string) \<times> 'w"
  ollama_chat :: "'w \<Rightarrow> string \<Rightarrow> string \<Rightarrow> string \<Rightarrow> (string + string) \<times> 'w"

text \<open>\<open>needle in haystack\<close> for strings.\<close>

fun py_in :: "string \<Rightarrow> string \<Rightarrow> bool" where
  "py_in needle [] = (needle = [])"
| "py_in needle (c # cs) = (startswith (c # cs) needle \<or> py_in needle cs)"

text \<open>
  \<^verbatim>\<open>m = re.search(r"Please try again in ([\d.]+)s", error_str)\<close>

  \<open>match_wait\<close> is a match that starts at the head of the text, \<open>search_wait\<close> the
  leftmost match; both give group 1. The group is the longest run of digits and dots
  after the words: a shorter run is followed by a digit or a dot, not by \<open>s\<close>. The
  digits are the ten ASCII digits.
\<close>

definition is_digit_or_dot :: "char \<Rightarrow> bool" where
  "is_digit_or_dot c = (is_digit c \<or> c = CHR ''.'')"

definition match_wait :: "string \<Rightarrow> string option" where
  "match_wait s =
     (if startswith s ''Please try again in ''
      then (let r = drop (length ''Please try again in '') s;
                group1 = takeWhile is_digit_or_dot r;
                after = dropWhile is_digit_or_dot r
            in if group1 \<noteq> [] \<and> after \<noteq> [] \<and> hd after = CHR ''s''
               then Some group1 else None)
      else None)"

fun search_wait :: "string \<Rightarrow> string option" where
  "search_wait [] = None"
| "search_wait (c # cs) =
     (case match_wait (c # cs) of
        Some group1 \<Rightarrow> Some group1
      | None \<Rightarrow> search_wait cs)"

text \<open>
  \<open>float\<close> on a text of digits and dots: a number when the text has a digit and at most
  one dot, \<open>ValueError\<close> otherwise. The value is the decimal the text denotes; Python
  keeps the double nearest to it.
\<close>

definition py_float :: "string \<Rightarrow> py_error + rat" where
  "py_float s =
     (let whole = takeWhile is_digit s;
          fraction = drop 1 (dropWhile is_digit s)
      in if list_all is_digit_or_dot s \<and> (whole \<noteq> [] \<or> fraction \<noteq> []) \<and>
            list_all is_digit fraction
         then Inr (of_nat (digits_value (whole @ fraction)) / 10 ^ length fraction)
         else Inl (ValueError (''could not convert string to float: '' @ [CHR 0x27] @ s @ [CHR 0x27])))"

text \<open>
  \<^verbatim>\<open>def send_to_openai(prompt, model):
    retries = 0
    retry_delay = 2
    max_retries = 5
    while retries < max_retries:
        try:
            response = openai.ChatCompletion.create(model=model, messages=[...])
            return response["choices"][0]["message"]["content"]
        except Exception as e:
            error_str = str(e)
            if "Rate limit reached" in error_str:
                m = re.search(r"Please try again in ([\d.]+)s", error_str)
                wait_time = float(m.group(1)) if m else retry_delay
                time.sleep(wait_time)
                retries += 1
            else:
                return None
    return None\<close>

  \<open>float\<close> and \<open>time.sleep\<close> are called inside the handler: what they raise leaves
  the function. \<open>time.sleep\<close> raises \<open>OverflowError\<close> on a wait that does not fit the
  clock, which on CPython counts nanoseconds in 64 bits; digits and dots give no negative
  wait. \<open>sleep_wait_time\<close> is the three lines of the handler from the search to the
  sleep: the wait that was slept, or what \<open>float\<close> or \<open>time.sleep\<close> raised.
\<close>

definition retry_delay :: rat where
  "retry_delay = 2"

definition max_retries :: nat where
  "max_retries = 5"

definition wait_time :: "string \<Rightarrow> py_error + rat" where
  "wait_time error_str =
     (case search_wait error_str of
        Some group1 \<Rightarrow> py_float group1
      | None \<Rightarrow> Inr retry_delay)"

definition sleep_limit :: rat where
  "sleep_limit = (2 ^ 63 - 1) / 10 ^ 9"

definition time_sleep :: "rat \<Rightarrow> py_error + unit" where
  "time_sleep secs =
     (if sleep_limit < secs
      then Inl (OverflowError ''timestamp too large to convert to C _PyTime_t'')
      else Inr ())"

definition sleep_wait_time :: "string \<Rightarrow> py_error + rat" where
  "sleep_wait_time error_str =
     (case wait_time error_str of
        Inl e \<Rightarrow> Inl e
      | Inr wait \<Rightarrow>
          (case time_sleep wait of
             Inl e \<Rightarrow> Inl e
           | Inr u \<Rightarrow> Inr wait))"

function send_to_openai_loop ::
  "'w backend \<Rightarrow> string \<Rightarrow> string \<Rightarrow> nat \<Rightarrow> event list \<Rightarrow> 'w
     \<Rightarrow> (py_error + string option) \<times> event list \<times> 'w"
where
  "send_to_openai_loop api prompt model retries events w =
     (if retries < max_retries then
        (case openai_create api w model prompt of
           (Inr content, w') \<Rightarrow> (Inr (Some content), events @ [Requested prompt], w')
         | (Inl error_str, w') \<Rightarrow>
             (if py_in ''Rate limit reached'' error_str then
                (case sleep_wait_time error_str of
                   Inl e \<Rightarrow> (Inl e, events @ [Requested prompt], w')
                 | Inr wait \<Rightarrow>
                     send_to_openai_loop api prompt model (retries + 1)
                       (events @ [Requested prompt, Slept wait]) w')
              else (Inr None, events @ [Requested prompt], w')))
      else (Inr None, events, w))"
  by pat_completeness auto
termination
  by (relation "measure (\<lambda>(api, prompt, model, retries, events, w). max_retries - retries)") auto

definition send_to_openai ::
  "'w backend \<Rightarrow> 'w \<Rightarrow> string \<Rightarrow> string \<Rightarrow> (py_error + string option) \<times> event list \<times> 'w" where
  "send_to_openai api w prompt model = send_to_openai_loop api prompt model 0 [] w"

text \<open>
  \<^verbatim>\<open>def send_to_ollama(prompt, model, ollama_host):
    try:
        client = Client(host=ollama_host)
        response = client.chat(model=model, messages=[...], stream=False)
        return response.message.content
    except Exception as e:
        return None

def send_request(prompt, provider, model, ollama_host):
    if provider.lower() == "ollama":
        return send_to_ollama(prompt, model, ollama_host)
    else:
        return send_to_openai(prompt, model)\<close>
\<close>

definition send_to_ollama ::
  "'w backend \<Rightarrow> 'w \<Rightarrow> string \<Rightarrow> string \<Rightarrow> string
     \<Rightarrow> (py_error + string option) \<times> event list \<times> 'w" where
  "send_to_ollama api w prompt model ollama_host =
     (case ollama_chat api w ollama_host model prompt of
        (Inr content, w') \<Rightarrow> (Inr (Some content), [Requested prompt], w')
      | (Inl error_str, w') \<Rightarrow> (Inr None, [Requested prompt], w'))"

definition py_lower :: "string \<Rightarrow> string" where
  "py_lower s =
     map (\<lambda>c. if (of_char CHR ''A'' :: nat) \<le> of_char c \<and> (of_char c :: nat) \<le> of_char CHR ''Z''
              then char_of (of_char c + 32 :: nat) else c) s"

definition send_request ::
  "'w backend \<Rightarrow> 'w \<Rightarrow> string \<Rightarrow> string \<Rightarrow> string \<Rightarrow> string
     \<Rightarrow> (py_error + string option) \<times> event list \<times> 'w" where
  "send_request api w prompt provider model ollama_host =
     (if py_lower provider = ''ollama''
      then send_to_ollama api w prompt model ollama_host
      else send_to_openai api w prompt model)"

text \<open>The calls of a provider's API among the events.\<close>

fun is_request :: "event \<Rightarrow> bool" where
  "is_request (Requested p) = True"
| "is_request _ = False"

section \<open>The run over the navigation\<close>

text \<open>
  What a run is given: the files, the two parsers of the libraries, the providers, the
  two halves of \<open>CUSTOM_PROMPT\<close> around \<open>{content}\<close>, the two paths \<open>main\<close> computes
  and the arguments of the command line.
\<close>

record 'w env =
  env_fs :: filesystem
  env_yaml_load :: "string \<Rightarrow> py_error + yaml"
  env_json_loads :: "string \<Rightarrow> py_error + json"
  env_backend :: "'w backend"
  custom_prompt_head :: string
  custom_prompt_tail :: string
  env_config_path :: string
  env_clone_dir :: string
  arg_provider :: string
  arg_model :: string
  arg_ollama_host :: string
  arg_max_chars :: int

text \<open>
  A value of \<open>results\<close>: the dict \<open>parse_json_response\<close> returned, \<open>None\<close>, or the message
  of the handler.
\<close>

datatype entry = Parsed json | NoResponse | ErrMsg string

text \<open>
  \<^verbatim>\<open>results = {}
for file in nav_files:
    try:
        content = read_file_content(file, config_path, clone_dir)
        content = truncate_content(content, args.max_chars)
        prompt = CUSTOM_PROMPT.format(content=content)
        raw_response = send_request(prompt, args.provider, args.model, args.ollama_host)
        if raw_response:
            parsed = parse_json_response(raw_response)
            results[file] = parsed
        else:
            results[file] = None
    except Exception as e:
        err_msg = f"Error processing file {file}: {e}"
        results[file] = err_msg
    time.sleep(1)\<close>

  \<open>process_try\<close> is the body of the \<open>try\<close>, \<open>process_file\<close> the \<open>try\<close> with its handler,
  \<open>process_files\<close> the loop. \<open>results\<close> is the dict as the list of its items: a key
  assigned again keeps its place and takes the new value, as \<open>AList.update\<close> does.
\<close>

definition process_try :: "'w env \<Rightarrow> 'w \<Rightarrow> string \<Rightarrow> (py_error + entry) \<times> event list \<times> 'w" where
  "process_try E w file =
     (case read_file_content (env_fs E) (env_yaml_load E) file (env_config_path E) (env_clone_dir E) of
        Inl e \<Rightarrow> (Inl e, [Located file], w)
      | Inr content \<Rightarrow>
          (let content' = truncate_content content (arg_max_chars E);
               prompt = custom_prompt_head E @ content' @ custom_prompt_tail E
           in case send_request (env_backend E) w prompt
                     (arg_provider E) (arg_model E) (arg_ollama_host E) of
                (Inl e, evs, w') \<Rightarrow> (Inl e, [Located file, Dispatched file prompt] @ evs, w')
              | (Inr None, evs, w') \<Rightarrow>
                  (Inr NoResponse, [Located file, Dispatched file prompt] @ evs, w')
              | (Inr (Some raw_response), evs, w') \<Rightarrow>
                  (if raw_response \<noteq> []
                   then (Inr (Parsed (parse_json_response (env_json_loads E) raw_response)),
                         [Located file, Dispatched file prompt] @ evs @
                         [Interpreted file raw_response], w')
                   else (Inr NoResponse, [Located file, Dispatched file prompt] @ evs, w'))))"

definition err_msg :: "string \<Rightarrow> py_error \<Rightarrow> string" where
  "err_msg file e = ''Error processing file '' @ file @ '': '' @ str_of_error e"

definition process_file :: "'w env \<Rightarrow> 'w \<Rightarrow> string \<Rightarrow> entry \<times> event list \<times> 'w" where
  "process_file E w file =
     (case process_try E w file of
        (Inr entry, evs, w') \<Rightarrow> (entry, evs, w')
      | (Inl e, evs, w') \<Rightarrow> (ErrMsg (err_msg file e), evs, w'))"

record 'w run =
  results :: "(string \<times> entry) list"
  world :: 'w
  trace :: "event list"

fun process_files :: "'w env \<Rightarrow> string list \<Rightarrow> 'w run \<Rightarrow> 'w run" where
  "process_files E [] st = st"
| "process_files E (file # rest) st =
     (case process_file E (world st) file of
        (entry, evs, w') \<Rightarrow>
          process_files E rest
            \<lparr>results = AList.update file entry (results st),
             world = w',
             trace = trace st @ evs @ [Slept 1]\<rparr>)"

definition run_report :: "'w env \<Rightarrow> 'w \<Rightarrow> string list \<Rightarrow> 'w run" where
  "run_report E w nav_files = process_files E nav_files \<lparr>results = [], world = w, trace = []\<rparr>"

text \<open>The events of one document: its lookups, its dispatches, its interpretations.\<close>

fun locates :: "string \<Rightarrow> event \<Rightarrow> bool" where
  "locates f (Located g) = (g = f)"
| "locates f _ = False"

fun dispatches :: "string \<Rightarrow> event \<Rightarrow> bool" where
  "dispatches f (Dispatched g prompt) = (g = f)"
| "dispatches f _ = False"

fun interprets :: "string \<Rightarrow> event \<Rightarrow> bool" where
  "interprets f (Interpreted g raw_response) = (g = f)"
| "interprets f _ = False"

fun is_backend_event :: "event \<Rightarrow> bool" where
  "is_backend_event (Requested p) = True"
| "is_backend_event (Slept d) = True"
| "is_backend_event _ = False"

subsection \<open>A run to evaluate\<close>

text \<open>
  A site with three documents under \<open>docs\<close>, and a hosted provider whose first answer is
  a classification, whose second is a rate-limit error with a wait that is not a number,
  and whose later answers are another classification. The state of the world is the
  number of calls made so far.
\<close>

definition example_env :: "nat env" where
  \<open>example_env =
     \<lparr>env_fs = [''/site/mkdocs.yml'' \<mapsto> File ''site_name: example'',
                ''/site/docs/a.md'' \<mapsto> File ''Install it, then run it.'',
                ''/site/docs/b.md'' \<mapsto> File ''Every option, one by one.'',
                ''/site/docs/c.md'' \<mapsto> File ''Why it works this way.''],
      env_yaml_load = (\<lambda>text. Inr (YDict [(''site_name'', YStr ''example'')])),
      env_json_loads = json_loads,
      env_backend =
        \<lparr>openai_create = (\<lambda>w model prompt.
           (if w = 0 then Inr ''{"dominant": "tutorial"}''
            else if w = 1 then Inl ''Rate limit reached. Please try again in 1.2.3s.''
            else Inr ''Here: {"dominant": "reference"}'', Suc w)),
         ollama_chat = (\<lambda>w host model prompt. (Inl ''connection refused'', w))\<rparr>,
      custom_prompt_head = ''Classify this content: '',
      custom_prompt_tail = '' Ensure your response is a valid JSON object.'',
      env_config_path = ''/site/mkdocs.yml'',
      env_clone_dir = ''/tool/tmp'',
      arg_provider = ''openai'',
      arg_model = ''gpt-4o'',
      arg_ollama_host = ''http://localhost:11434'',
      arg_max_chars = 15\<rparr>\<close>

chapter \<open>Properties\<close>

section \<open>Properties of the truncation\<close>

lemma truncate_content_take:
  "0 \<le> max_chars \<Longrightarrow> truncate_content content max_chars = take (nat max_chars) content"
  by (auto simp add: truncate_content_def py_slice_def py_index_def)

text \<open>
  C8, as stated, at a negative budget: \<open>--max-chars=-5\<close> is an integer argparse
  accepts, the slice \<open>content[:-5]\<close> drops the last five characters, and the three
  characters returned are neither within the budget nor a prefix of budget length.
\<close>

theorem truncate_content_negative_budget:
  "truncate_content ''abcdefgh'' (- 5) = ''abc'' \<and>
   \<not> int (length (truncate_content ''abcdefgh'' (- 5))) \<le> - 5 \<and>
   truncate_content ''abcdefgh'' (- 5) \<noteq> take (nat (- 5)) ''abcdefgh''"
  by (simp add: truncate_content_def py_slice_def py_index_def)

text \<open>
  C8, amended to budgets that are not negative: the result has at most \<open>max_chars\<close>
  elements; a content within the budget comes back unchanged; a longer one comes back as
  exactly its prefix of \<open>max_chars\<close> elements. The result is the bare sequence: nothing in
  it tells the caller whether anything was dropped.
\<close>

theorem truncate_content_budget:
  assumes "0 \<le> max_chars"
  shows "int (length (truncate_content content max_chars)) \<le> max_chars \<and>
    (int (length content) \<le> max_chars \<longrightarrow> truncate_content content max_chars = content) \<and>
    (max_chars < int (length content) \<longrightarrow>
       truncate_content content max_chars = take (nat max_chars) content \<and>
       int (length (truncate_content content max_chars)) = max_chars \<and>
       content = truncate_content content max_chars @ drop (nat max_chars) content)"
  using assms by (auto simp add: truncate_content_take)

theorem truncate_content_budget_witness:
  "int (length (truncate_content ''abcdefgh'' 3)) \<le> 3 \<and>
   truncate_content ''abcdefgh'' 3 = ''abc'' \<and>
   truncate_content ''abc'' 10 = ''abc''"
proof -
  have long: "int (length (truncate_content ''abcdefgh'' 3)) \<le> 3 \<and>
      truncate_content ''abcdefgh'' 3 = take (nat 3) ''abcdefgh''"
    using truncate_content_budget [of 3 "''abcdefgh''"] by fastforce
  have short: "truncate_content ''abc'' 10 = ''abc''"
    using truncate_content_budget [of 10 "''abc''"] by fastforce
  from long short show ?thesis by simp
qed

section \<open>Properties of the navigation\<close>

lemma re_split_nonempty: "re_split c s \<noteq> []"
  by (induction s) (auto split: list.splits)

lemma hd_re_split: "hd (re_split c s) = takeWhile (\<lambda>x. x \<noteq> c) s"
  by (induction s) (auto split: list.splits simp: re_split_nonempty)

text \<open>
  Where no dict has an item after an external link, \<open>extract_files\<close> appends exactly the
  accepted references, in order. The three statements are the three loops.
\<close>

lemma extract_files_refines:
  "link_is_last item \<Longrightarrow>
     extract_files item nav_files =
       nav_files @ map strip_fragment (filter (\<lambda>s. \<not> is_external_link s) (string_leaves item))"
  "link_is_last_values vs \<Longrightarrow>
     extract_values vs nav_files =
       nav_files @ map strip_fragment (filter (\<lambda>s. \<not> is_external_link s) (string_leaves_values vs))"
  "link_is_last_items items \<Longrightarrow>
     extract_items items nav_files =
       nav_files @ map strip_fragment (filter (\<lambda>s. \<not> is_external_link s) (string_leaves_items items))"
  by (induction item nav_files and vs nav_files and items nav_files
        rule: extract_files_extract_values_extract_items.induct)
     (auto simp: is_external_link_def strip_fragment_def hd_re_split)

lemma extract_files_accepted_references:
  "link_is_last nav \<Longrightarrow> extract_files nav [] = accepted_references nav"
  by (simp add: extract_files_refines(1) accepted_references_def)

text \<open>
  C1 at a dict with an item after an external link,
  \<^verbatim>\<open>nav: [{External: "https://example.com", Home: index.md}]\<close>:
  the \<open>return\<close> at the link leaves the loop over the items, \<open>index.md\<close> is never
  appended and the result is empty, while the navigation has one string leaf that is not
  an external link. The docstring of \<open>load_mkdocs_nav\<close> promises the file paths of the
  navigation, ignoring URLs.
\<close>

theorem extract_files_returns_at_external_link:
  "extract_files
     (YList [YDict [(''External'', YStr ''https://example.com''), (''Home'', YStr ''index.md'')]]) [] = [] \<and>
   accepted_references
     (YList [YDict [(''External'', YStr ''https://example.com''), (''Home'', YStr ''index.md'')]])
     = [''index.md''] \<and>
   load_mkdocs_nav
     (\<lambda>p. if p = ''mkdocs.yml''
          then Some (File ''nav: [{External: https://example.com, Home: index.md}]'') else None)
     (\<lambda>text. Inr (YDict [(''nav'',
        YList [YDict [(''External'', YStr ''https://example.com''), (''Home'', YStr ''index.md'')]])]))
     ''mkdocs.yml'' = Inr []"
  by (simp add: startswith_def accepted_references_def is_external_link_def strip_fragment_def
      load_mkdocs_nav_def os_path_exists_def open_read_def config_get_def)

text \<open>
  C6: a string value that is a path without \<open>#\<close>, then \<open>#\<close>, then a fragment, and that
  is not an external link, is appended as the path alone: by the loop over the items of
  any dict, with any items after it and any references collected before it, and so by
  \<open>extract_files\<close> on the navigation that holds just this entry.
\<close>

theorem fragment_stripped:
  assumes "CHR ''#'' \<notin> set path"
    and "\<not> (startswith (path @ CHR ''#'' # fragment) ''http://'' \<or>
             startswith (path @ CHR ''#'' # fragment) ''https://'')"
  shows "hd (re_split CHR ''#'' (path @ CHR ''#'' # fragment)) = path \<and>
         extract_items ((key, YStr (path @ CHR ''#'' # fragment)) # rest) nav_files =
           extract_items rest (nav_files @ [path]) \<and>
         extract_files (YList [YDict [(key, YStr (path @ CHR ''#'' # fragment))]]) [] = [path]"
proof -
  have "hd (re_split CHR ''#'' (path @ CHR ''#'' # fragment)) = path"
    using assms(1) by (auto simp: hd_re_split takeWhile_tail)
  then show ?thesis using assms(2) by simp
qed

theorem fragment_stripped_witness:
  "CHR ''#'' \<notin> set ''guide.md'' \<and>
   \<not> (startswith ''guide.md#setup'' ''http://'' \<or> startswith ''guide.md#setup'' ''https://'') \<and>
   extract_files (YList [YDict [(''Guide'', YStr ''guide.md#setup'')]]) [] = [''guide.md'']"
proof -
  have a: "CHR ''#'' \<notin> set ''guide.md''" by simp
  have b: "\<not> (startswith (''guide.md'' @ CHR ''#'' # ''setup'') ''http://'' \<or>
             startswith (''guide.md'' @ CHR ''#'' # ''setup'') ''https://'')"
    by (simp add: startswith_def)
  from a b fragment_stripped [OF a b, of "''Guide''"] show ?thesis by simp
qed

section \<open>Properties of the content locator\<close>

text \<open>
  C5, as stated, at a first existing path that cannot be read as text. A file of bytes
  that are not UTF-8 under the docs root, and a text file of the same name beside the
  configuration: \<open>read\<close> raises \<open>UnicodeDecodeError\<close>; no content of the first
  existing path is returned, the second root is not tried, and the error is not the
  \<open>FileNotFoundError\<close> of the last line. And the empty reference, which the navigation
  value \<^verbatim>\<open>#top\<close> resolves to: its first candidate is the docs directory itself, which
  exists, and \<open>open\<close> raises \<open>IsADirectoryError\<close>, though no root holds such a file.
\<close>

theorem read_file_content_unreadable_candidate:
  "read_file_content
     [''/site/mkdocs.yml'' \<mapsto> File ''site_name: x'', ''/site/docs/logo.md'' \<mapsto> NotUtf8,
      ''/site/logo.md'' \<mapsto> File ''two'']
     (\<lambda>text. Inr (YDict [(''site_name'', YStr ''x'')])) ''logo.md'' ''/site/mkdocs.yml'' ''/tool/tmp''
     = Inl (UnicodeDecodeError
         (CHR 0x27 # ''utf-8'' @ [CHR 0x27] @ '' codec can'' @ [CHR 0x27] @ ''t decode byte'')) \<and>
   extract_files (YList [YDict [(''Top'', YStr ''#top'')]]) [] = [''''] \<and>
   os_path_join (os_path_dirname ''/site/mkdocs.yml'') [''docs'', ''''] = ''/site/docs/'' \<and>
   read_file_content
     [''/site/mkdocs.yml'' \<mapsto> File ''site_name: x'', ''/site/docs/'' \<mapsto> Directory,
      ''/site/'' \<mapsto> Directory]
     (\<lambda>text. Inr (YDict [(''site_name'', YStr ''x'')])) '''' ''/site/mkdocs.yml'' ''/tool/tmp''
     = Inl (IsADirectoryError (''[Errno 21] Is a directory: '' @ [CHR 0x27] @ ''/site/docs/'' @ [CHR 0x27]))"
  by (simp add: os_path_dirname_def py_rfind_def py_slice_def py_index_def rstrip_def
      os_path_join_def join_step_def startswith_def open_read_def config_get_def
      read_file_content_def os_path_exists_def)

text \<open>
  C5, amended to first existing paths that are text files. With a configuration that
  loads and gives a \<open>docs_dir\<close> string (\<open>docs\<close> when the key is absent), the three
  candidates are tried in the order \<open>join(dirname(config_path), docs_dir, ref)\<close>,
  \<open>join(dirname(config_path), ref)\<close>, \<open>join(repo_dir, ref)\<close>. A text file at the first
  is returned whatever the other two hold; a text file at the second is returned when the
  first names nothing; a text file at the third when the first two name nothing; and
  when all three name nothing the result is the \<open>FileNotFoundError\<close> of the last line.
\<close>

theorem read_file_content_precedence:
  assumes "open_read fs config_path = Inr text"
    and "yaml_load text = Inr config"
    and "config_get config ''docs_dir'' (YStr ''docs'') = Inr (YStr docs_dir)"
  shows
    "(fs (os_path_join (os_path_dirname config_path) [docs_dir, ref]) = Some (File c) \<longrightarrow>
        read_file_content fs yaml_load ref config_path repo_dir = Inr c) \<and>
     (fs (os_path_join (os_path_dirname config_path) [docs_dir, ref]) = None \<and>
      fs (os_path_join (os_path_dirname config_path) [ref]) = Some (File c) \<longrightarrow>
        read_file_content fs yaml_load ref config_path repo_dir = Inr c) \<and>
     (fs (os_path_join (os_path_dirname config_path) [docs_dir, ref]) = None \<and>
      fs (os_path_join (os_path_dirname config_path) [ref]) = None \<and>
      fs (os_path_join repo_dir [ref]) = Some (File c) \<longrightarrow>
        read_file_content fs yaml_load ref config_path repo_dir = Inr c) \<and>
     (fs (os_path_join (os_path_dirname config_path) [docs_dir, ref]) = None \<and>
      fs (os_path_join (os_path_dirname config_path) [ref]) = None \<and>
      fs (os_path_join repo_dir [ref]) = None \<longrightarrow>
        read_file_content fs yaml_load ref config_path repo_dir =
          Inl (FileNotFoundError
                 (''File '' @ [CHR 0x27] @ ref @ [CHR 0x27] @ '' not found in expected locations.'')))"
  using assms
  by (simp add: read_file_content_def os_path_exists_def open_read_def Let_def)

lemmas path_simps = os_path_dirname_def py_rfind_def py_slice_def py_index_def rstrip_def
  os_path_join_def join_step_def startswith_def open_read_def config_get_def

theorem read_file_content_precedence_witness:
  "read_file_content
     [''/site/mkdocs.yml'' \<mapsto> File ''site_name: x'', ''/site/docs/guide.md'' \<mapsto> File ''one'',
      ''/site/guide.md'' \<mapsto> File ''two'', ''/tool/tmp/guide.md'' \<mapsto> File ''three'']
     (\<lambda>text. Inr (YDict [(''site_name'', YStr ''x'')])) ''guide.md'' ''/site/mkdocs.yml'' ''/tool/tmp''
     = Inr ''one'' \<and>
   read_file_content
     [''/site/mkdocs.yml'' \<mapsto> File ''site_name: x'',
      ''/site/guide.md'' \<mapsto> File ''two'', ''/tool/tmp/guide.md'' \<mapsto> File ''three'']
     (\<lambda>text. Inr (YDict [(''site_name'', YStr ''x'')])) ''guide.md'' ''/site/mkdocs.yml'' ''/tool/tmp''
     = Inr ''two'' \<and>
   read_file_content
     [''/site/mkdocs.yml'' \<mapsto> File ''site_name: x'', ''/tool/tmp/guide.md'' \<mapsto> File ''three'']
     (\<lambda>text. Inr (YDict [(''site_name'', YStr ''x'')])) ''guide.md'' ''/site/mkdocs.yml'' ''/tool/tmp''
     = Inr ''three'' \<and>
   read_file_content
     [''/site/mkdocs.yml'' \<mapsto> File ''site_name: x'']
     (\<lambda>text. Inr (YDict [(''site_name'', YStr ''x'')])) ''guide.md'' ''/site/mkdocs.yml'' ''/tool/tmp''
     = Inl (FileNotFoundError ''File 'guide.md' not found in expected locations.'')"
proof -
  have one: "read_file_content
     [''/site/mkdocs.yml'' \<mapsto> File ''site_name: x'', ''/site/docs/guide.md'' \<mapsto> File ''one'',
      ''/site/guide.md'' \<mapsto> File ''two'', ''/tool/tmp/guide.md'' \<mapsto> File ''three'']
     (\<lambda>text. Inr (YDict [(''site_name'', YStr ''x'')])) ''guide.md'' ''/site/mkdocs.yml'' ''/tool/tmp''
     = Inr ''one''"
    using read_file_content_precedence [of _ "''/site/mkdocs.yml''" "''site_name: x''"
        "\<lambda>text. Inr (YDict [(''site_name'', YStr ''x'')])" "YDict [(''site_name'', YStr ''x'')]"
        "''docs''" "''guide.md''" "''one''" "''/tool/tmp''"]
    by (simp add: path_simps)
  have two: "read_file_content
     [''/site/mkdocs.yml'' \<mapsto> File ''site_name: x'',
      ''/site/guide.md'' \<mapsto> File ''two'', ''/tool/tmp/guide.md'' \<mapsto> File ''three'']
     (\<lambda>text. Inr (YDict [(''site_name'', YStr ''x'')])) ''guide.md'' ''/site/mkdocs.yml'' ''/tool/tmp''
     = Inr ''two''"
    using read_file_content_precedence [of _ "''/site/mkdocs.yml''" "''site_name: x''"
        "\<lambda>text. Inr (YDict [(''site_name'', YStr ''x'')])" "YDict [(''site_name'', YStr ''x'')]"
        "''docs''" "''guide.md''" "''two''" "''/tool/tmp''"]
    by (simp add: path_simps)
  have three: "read_file_content
     [''/site/mkdocs.yml'' \<mapsto> File ''site_name: x'', ''/tool/tmp/guide.md'' \<mapsto> File ''three'']
     (\<lambda>text. Inr (YDict [(''site_name'', YStr ''x'')])) ''guide.md'' ''/site/mkdocs.yml'' ''/tool/tmp''
     = Inr ''three''"
    using read_file_content_precedence [of _ "''/site/mkdocs.yml''" "''site_name: x''"
        "\<lambda>text. Inr (YDict [(''site_name'', YStr ''x'')])" "YDict [(''site_name'', YStr ''x'')]"
        "''docs''" "''guide.md''" "''three''" "''/tool/tmp''"]
    by (simp add: path_simps)
  have none: "read_file_content
     [''/site/mkdocs.yml'' \<mapsto> File ''site_name: x'']
     (\<lambda>text. Inr (YDict [(''site_name'', YStr ''x'')])) ''guide.md'' ''/site/mkdocs.yml'' ''/tool/tmp''
     = Inl (FileNotFoundError ''File 'guide.md' not found in expected locations.'')"
    using read_file_content_precedence [of _ "''/site/mkdocs.yml''" "''site_name: x''"
        "\<lambda>text. Inr (YDict [(''site_name'', YStr ''x'')])" "YDict [(''site_name'', YStr ''x'')]"
        "''docs''" "''guide.md''" _ "''/tool/tmp''"]
    by (simp add: path_simps)
  from one two three none show ?thesis by blast
qed

section \<open>Properties of the response interpreter\<close>

lemma find_from_notin: "c \<notin> set s \<Longrightarrow> find_from s c i = - 1"
  by (induction s arbitrary: i) auto

lemma find_from_in: "c \<in> set s \<Longrightarrow> 0 \<le> i \<Longrightarrow> i \<le> find_from s c i"
proof (induction s arbitrary: i)
  case Nil
  then show ?case by simp
next
  case (Cons x xs)
  show ?case
  proof (cases "x = c")
    case True
    then show ?thesis by simp
  next
    case False
    with Cons.prems have "c \<in> set xs" by simp
    from Cons.IH [OF this, of "i + 1"] Cons.prems(2) False show ?thesis by simp
  qed
qed

lemma py_find_absent: "py_find s c = - 1 \<longleftrightarrow> c \<notin> set s"
  using find_from_in [of c s 0] find_from_notin [of c s 0] by (auto simp: py_find_def)

lemma rfind_from_notin: "c \<notin> set s \<Longrightarrow> rfind_from s c i found = found"
  by (induction s arbitrary: i found) auto

lemma rfind_from_lower: "- 1 \<le> found \<Longrightarrow> 0 \<le> i \<Longrightarrow> - 1 \<le> rfind_from s c i found"
  by (induction s arbitrary: i found) auto

lemma py_rfind_lower: "- 1 \<le> py_rfind s c"
  by (simp add: py_rfind_def rfind_from_lower)

lemma py_rfind_absent: "c \<notin> set s \<Longrightarrow> py_rfind s c = - 1"
  by (simp add: py_rfind_def rfind_from_notin)

lemma find_from_first: "c \<notin> set a \<Longrightarrow> find_from (a @ c # r) c i = i + int (length a)"
  by (induction a arbitrary: i) auto

lemma rfind_from_last:
  "c \<notin> set r \<Longrightarrow> rfind_from (a @ c # r) c i found = i + int (length a)"
  by (induction a arbitrary: i found) (auto simp: rfind_from_notin)

lemma brace_slice_wrapped:
  assumes "CHR ''{'' \<notin> set before" and "CHR ''}'' \<notin> set after"
  shows "brace_slice (before @ CHR ''{'' # inner @ CHR ''}'' # after) = CHR ''{'' # inner @ ''}''"
proof -
  let ?t = "before @ CHR ''{'' # inner @ CHR ''}'' # after"
  let ?m = "before @ CHR ''{'' # inner @ ''}''"
  have f: "py_find ?t CHR ''{'' = int (length before)"
    using assms(1) by (simp add: py_find_def find_from_first)
  have "?t = (before @ CHR ''{'' # inner) @ CHR ''}'' # after" by simp
  then have "py_rfind ?t CHR ''}'' = int (length (before @ CHR ''{'' # inner))"
    using assms(2) rfind_from_last [of "CHR ''}''" after "before @ CHR ''{'' # inner" 0 "- 1"]
    by (simp add: py_rfind_def)
  then have r: "py_rfind ?t CHR ''}'' + 1 = int (length ?m)" by simp
  have i1: "py_index (length ?t) (int (length before)) = length before"
    by (simp add: py_index_def)
  have i2: "py_index (length ?t) (int (length ?m)) = length ?m"
    by (simp add: py_index_def)
  have t: "?t = ?m @ after" by simp
  have "take (length ?m) ?t = ?m" unfolding t by simp
  moreover have "drop (length before) ?m = CHR ''{'' # inner @ ''}''" by simp
  ultimately show ?thesis
    unfolding brace_slice_def py_slice_def f r i1 i2 by simp
qed

lemma parse_json_try_no_brace:
  "CHR ''{'' \<notin> set text \<Longrightarrow>
     parse_json_try loads text = Inl (ValueError ''No valid JSON object found.'')"
  by (simp add: parse_json_try_def py_find_absent)

lemma parse_json_try_brace:
  "CHR ''{'' \<in> set text \<Longrightarrow> parse_json_try loads text = loads (brace_slice text)"
  using py_rfind_lower [of "text" "CHR ''}''"]
  by (simp add: parse_json_try_def py_find_absent brace_slice_def Let_def)

lemma brace_slice_unclosed:
  "CHR ''}'' \<notin> set text \<Longrightarrow> brace_slice text = []"
  by (simp add: brace_slice_def py_rfind_absent py_slice_def py_index_def)

text \<open>
  C3, as stated, at a text that decodes to an object without the classification keys:
  the decoded object is returned as it is. It is not the dict of the handler: it has no
  \<open>raw_response\<close>, and no \<open>error\<close>.
\<close>

theorem parse_json_response_keys_not_checked:
  \<open>parse_json_response json_loads ''Here you go: {"note": "nothing to classify"}'' =
     JObject [(''note'', JString ''nothing to classify'')] \<and>
   json_get (parse_json_response json_loads ''Here you go: {"note": "nothing to classify"}'')
     ''dominant'' = None \<and>
   json_get (parse_json_response json_loads ''Here you go: {"note": "nothing to classify"}'')
     ''raw_response'' = None \<and>
   json_get (parse_json_response json_loads ''Here you go: {"note": "nothing to classify"}'')
     ''error'' = None\<close>
  by code_simp

text \<open>
  C3, amended: a text without \<open>{\<close> gives the dict of the handler, with the message of
  the \<open>ValueError\<close> and the raw text; a text with \<open>{\<close> whose slice from the first
  \<open>{\<close> to the last \<open>}\<close> the decoder rejects gives the dict of the handler, with the
  decoder's message and the raw text; a text whose slice decodes gives the decoded value,
  whatever its keys. In each case the function returns a value: the handler catches
  every exception of the body.
\<close>

theorem parse_json_response_failure:
  "(CHR ''{'' \<notin> set text \<longrightarrow>
      parse_json_response loads text =
        parse_failure (ValueError ''No valid JSON object found.'') text) \<and>
   (CHR ''{'' \<in> set text \<and> loads (brace_slice text) = Inl e \<longrightarrow>
      parse_json_response loads text = parse_failure e text) \<and>
   (CHR ''{'' \<in> set text \<and> loads (brace_slice text) = Inr v \<longrightarrow>
      parse_json_response loads text = v) \<and>
   json_get (parse_failure e text) ''raw_response'' = Some (JString text)"
  by (simp add: parse_json_response_def parse_json_try_no_brace parse_json_try_brace
      parse_failure_def)

theorem parse_json_response_failure_witness:
  \<open>parse_json_response json_loads ''I cannot classify this.'' =
     JObject [(''error'', JString ''Error parsing JSON: No valid JSON object found.''),
              (''raw_response'', JString ''I cannot classify this.'')] \<and>
   parse_json_response json_loads ''} {'' =
     JObject [(''error'', JString ''Error parsing JSON: Expecting value: line 1 column 1 (char 0)''),
              (''raw_response'', JString ''} {'')] \<and>
   json_get (parse_json_response json_loads ''{"dominant": tutorial}'') ''raw_response'' =
     Some (JString ''{"dominant": tutorial}'') \<and>
   json_get (parse_json_response json_loads ''{"dominant": tutorial}'') ''dominant'' = None \<and>
   parse_json_response json_loads ''{"dominant": "tutorial"}'' =
     JObject [(''dominant'', JString ''tutorial'')]\<close>
proof -
  let ?fault = "JSONDecodeError ''Expecting value: line 1 column 1 (char 0)''"
  have none: \<open>CHR ''{'' \<notin> set ''I cannot classify this.''\<close> by simp
  have empty: \<open>CHR ''{'' \<in> set ''} {'' \<and> brace_slice ''} {'' = [] \<and>
      json_loads (brace_slice ''} {'') = Inl ?fault\<close>
    by code_simp
  have bad: \<open>CHR ''{'' \<in> set ''{"dominant": tutorial}'' \<and>
      isl (json_loads (brace_slice ''{"dominant": tutorial}''))\<close>
    by code_simp
  then obtain e where bad': \<open>CHR ''{'' \<in> set ''{"dominant": tutorial}'' \<and>
      json_loads (brace_slice ''{"dominant": tutorial}'') = Inl e\<close>
    by (cases \<open>json_loads (brace_slice ''{"dominant": tutorial}'')\<close>) auto
  have good: \<open>CHR ''{'' \<in> set ''{"dominant": "tutorial"}'' \<and>
      json_loads (brace_slice ''{"dominant": "tutorial"}'') =
        Inr (JObject [(''dominant'', JString ''tutorial'')])\<close>
    by code_simp
  from none parse_json_response_failure [of "''I cannot classify this.''" json_loads]
  have r1: "parse_json_response json_loads ''I cannot classify this.'' =
      parse_failure (ValueError ''No valid JSON object found.'') ''I cannot classify this.''"
    by blast
  from empty parse_json_response_failure [of \<open>''} {''\<close> json_loads ?fault]
  have r2: "parse_json_response json_loads ''} {'' = parse_failure ?fault ''} {''"
    by blast
  from bad' parse_json_response_failure [of \<open>''{"dominant": tutorial}''\<close> json_loads e]
  have r3: \<open>parse_json_response json_loads ''{"dominant": tutorial}'' =
      parse_failure e ''{"dominant": tutorial}''\<close>
    by blast
  from good parse_json_response_failure [of \<open>''{"dominant": "tutorial"}''\<close> json_loads _
        "JObject [(''dominant'', JString ''tutorial'')]"]
  have r4: \<open>parse_json_response json_loads ''{"dominant": "tutorial"}'' =
      JObject [(''dominant'', JString ''tutorial'')]\<close>
    by blast
  show ?thesis
    unfolding r1 r2 r3 r4 by (simp add: parse_failure_def)
qed

text \<open>
  C7: the text of the specification's example, with words before and after the object.
  The slice from the first \<open>{\<close> to the last \<open>}\<close> is the object alone; it decodes, and
  the decoded dict is the result: \<open>dominant\<close> is \<open>tutorial\<close> and the four percentages are
  10, 70, 10 and 10.
\<close>

theorem parse_json_response_wrapped_example:
  \<open>parse_json_response json_loads
     ''Sure! {"dominant": "tutorial", "explanation":10,"tutorial":70,"how_to":10,"reference":10}  -- let me know if you need more.'' =
   JObject [(''dominant'', JString ''tutorial''), (''explanation'', JInt 10),
            (''tutorial'', JInt 70), (''how_to'', JInt 10), (''reference'', JInt 10)]\<close>
  by code_simp

text \<open>
  C9: the function returns a value on every text: the result is the value the body
  returns, or the dict of the handler made from what the body raises. The second test of
  the guard, \<open>end == -1\<close>, is never true. On a text with \<open>{\<close> and no \<open>}\<close> the guard
  does not fire (\<open>start\<close> is an index, \<open>end\<close> is 0), the slice is empty, and with a
  decoder that rejects the empty text the result is the dict of the handler with the
  decoder's message and the raw text.
\<close>

theorem parse_json_response_total:
  "((\<exists>v. parse_json_try loads text = Inr v \<and> parse_json_response loads text = v) \<or>
    (\<exists>e. parse_json_try loads text = Inl e \<and>
         parse_json_response loads text = parse_failure e text)) \<and>
   py_rfind text CHR ''}'' + 1 \<noteq> - 1 \<and>
   (CHR ''{'' \<in> set text \<and> CHR ''}'' \<notin> set text \<and> loads [] = Inl e \<longrightarrow>
      py_find text CHR ''{'' \<noteq> - 1 \<and>
      py_rfind text CHR ''}'' + 1 = 0 \<and>
      brace_slice text = [] \<and>
      parse_json_response loads text = parse_failure e text)"
proof -
  have total: "(\<exists>v. parse_json_try loads text = Inr v \<and> parse_json_response loads text = v) \<or>
    (\<exists>e. parse_json_try loads text = Inl e \<and>
         parse_json_response loads text = parse_failure e text)"
    by (cases "parse_json_try loads text") (simp_all add: parse_json_response_def)
  have guard: "py_rfind text CHR ''}'' + 1 \<noteq> - 1"
    using py_rfind_lower [of "text" "CHR ''}''"] by simp
  have unclosed: "py_find text CHR ''{'' \<noteq> - 1 \<and>
      py_rfind text CHR ''}'' + 1 = 0 \<and>
      brace_slice text = [] \<and>
      parse_json_response loads text = parse_failure e text"
    if "CHR ''{'' \<in> set text" "CHR ''}'' \<notin> set text" "loads [] = Inl e"
    using that
    by (simp add: py_find_absent py_rfind_absent brace_slice_unclosed parse_json_response_def
        parse_json_try_brace)
  from total guard unclosed show ?thesis by blast
qed

theorem parse_json_response_total_witness:
  \<open>CHR ''{'' \<in> set ''{ "dominant": "tutorial"'' \<and>
   CHR ''}'' \<notin> set ''{ "dominant": "tutorial"'' \<and>
   json_loads [] = Inl (JSONDecodeError ''Expecting value: line 1 column 1 (char 0)'') \<and>
   parse_json_response json_loads ''{ "dominant": "tutorial"'' =
     JObject [(''error'', JString ''Error parsing JSON: Expecting value: line 1 column 1 (char 0)''),
              (''raw_response'', JString ''{ "dominant": "tutorial"'')]\<close>
proof -
  have h: \<open>CHR ''{'' \<in> set ''{ "dominant": "tutorial"'' \<and>
      CHR ''}'' \<notin> set ''{ "dominant": "tutorial"'' \<and>
      json_loads [] = Inl (JSONDecodeError ''Expecting value: line 1 column 1 (char 0)'')\<close>
    by code_simp
  show ?thesis
    using h parse_json_response_total [of json_loads \<open>''{ "dominant": "tutorial"''\<close>
        "JSONDecodeError ''Expecting value: line 1 column 1 (char 0)''"]
    by (simp add: parse_failure_def)
qed

section \<open>Properties of the hosted backend\<close>

text \<open>
  One turn of the loop of \<open>send_to_openai\<close>, case by case: the bound is reached; the
  call succeeds; the call fails with another error; the call fails with a rate limit and
  the wait is slept; the call fails with a rate limit and \<open>float\<close> or \<open>time.sleep\<close>
  raises.
\<close>

lemma sleep_wait_time_slept:
  "sleep_wait_time error_str = Inr wait \<longleftrightarrow>
     wait_time error_str = Inr wait \<and> wait \<le> sleep_limit"
  by (auto simp: sleep_wait_time_def time_sleep_def split: sum.splits if_splits)

lemma sleep_wait_time_raised:
  "sleep_wait_time error_str = Inl e \<longleftrightarrow>
     wait_time error_str = Inl e \<or>
     (\<exists>wait. wait_time error_str = Inr wait \<and> sleep_limit < wait \<and>
        e = OverflowError ''timestamp too large to convert to C _PyTime_t'')"
  by (auto simp: sleep_wait_time_def time_sleep_def split: sum.splits if_splits)

declare send_to_openai_loop.simps [simp del]

lemma send_to_openai_loop_exhausted:
  "max_retries \<le> retries \<Longrightarrow>
     send_to_openai_loop api prompt model retries events w = (Inr None, events, w)"
  by (subst send_to_openai_loop.simps) simp

lemma send_to_openai_loop_success:
  "retries < max_retries \<Longrightarrow> openai_create api w model prompt = (Inr content, w') \<Longrightarrow>
     send_to_openai_loop api prompt model retries events w =
       (Inr (Some content), events @ [Requested prompt], w')"
  by (subst send_to_openai_loop.simps) simp

lemma send_to_openai_loop_other_error:
  "retries < max_retries \<Longrightarrow> openai_create api w model prompt = (Inl error_str, w') \<Longrightarrow>
   \<not> py_in ''Rate limit reached'' error_str \<Longrightarrow>
     send_to_openai_loop api prompt model retries events w =
       (Inr None, events @ [Requested prompt], w')"
  by (subst send_to_openai_loop.simps) simp

lemma send_to_openai_loop_retry:
  "retries < max_retries \<Longrightarrow> openai_create api w model prompt = (Inl error_str, w') \<Longrightarrow>
   py_in ''Rate limit reached'' error_str \<Longrightarrow> sleep_wait_time error_str = Inr wait \<Longrightarrow>
     send_to_openai_loop api prompt model retries events w =
       send_to_openai_loop api prompt model (retries + 1)
         (events @ [Requested prompt, Slept wait]) w'"
  by (subst send_to_openai_loop.simps) simp

lemma send_to_openai_loop_raises:
  "retries < max_retries \<Longrightarrow> openai_create api w model prompt = (Inl error_str, w') \<Longrightarrow>
   py_in ''Rate limit reached'' error_str \<Longrightarrow> sleep_wait_time error_str = Inl e \<Longrightarrow>
     send_to_openai_loop api prompt model retries events w =
       (Inl e, events @ [Requested prompt], w')"
  by (subst send_to_openai_loop.simps) simp

text \<open>At most \<open>max_retries\<close> calls are made, whatever the provider answers.\<close>

lemma send_to_openai_loop_requests:
  "length (filter is_request (fst (snd (send_to_openai_loop api prompt model retries events w))))
     \<le> length (filter is_request events) + (max_retries - retries)"
proof (induction api prompt model retries events w rule: send_to_openai_loop.induct)
  case (1 api prompt model retries events w)
  show ?case
  proof (cases "retries < max_retries")
    case False
    then show ?thesis by (simp add: send_to_openai_loop_exhausted)
  next
    case True
    obtain r w' where c: "openai_create api w model prompt = (r, w')"
      by (cases "openai_create api w model prompt")
    show ?thesis
    proof (cases r)
      case (Inr content)
      with True c show ?thesis by (simp add: send_to_openai_loop_success)
    next
      case (Inl error_str)
      show ?thesis
      proof (cases "py_in ''Rate limit reached'' error_str")
        case False
        with True c Inl show ?thesis by (simp add: send_to_openai_loop_other_error)
      next
        case rate: True
        show ?thesis
        proof (cases "sleep_wait_time error_str")
          case (Inl e)
          with True c \<open>r = Inl error_str\<close> rate show ?thesis
            by (simp add: send_to_openai_loop_raises)
        next
          case (Inr wait)
          from "1.IH" [OF True c [symmetric] \<open>r = Inl error_str\<close> rate Inr]
          have "length (filter is_request (fst (snd (send_to_openai_loop api prompt model
                  (retries + 1) (events @ [Requested prompt, Slept wait]) w'))))
                \<le> length (filter is_request (events @ [Requested prompt, Slept wait]))
                    + (max_retries - (retries + 1))" .
          with True c \<open>r = Inl error_str\<close> rate Inr show ?thesis
            by (simp add: send_to_openai_loop_retry)
        qed
      qed
    qed
  qed
qed

text \<open>
  A provider that answers every call with the same rate-limit error, whose wait is a
  number: five calls, each followed by a sleep of exactly that wait, then no result.
\<close>

lemma send_to_openai_loop_always_limited:
  assumes "\<And>w. fst (openai_create api w model prompt) = Inl error_str"
    and "py_in ''Rate limit reached'' error_str"
    and "sleep_wait_time error_str = Inr wait"
  shows "fst (send_to_openai_loop api prompt model retries events w) = Inr None \<and>
         fst (snd (send_to_openai_loop api prompt model retries events w)) =
           events @ concat (replicate (max_retries - retries) [Requested prompt, Slept wait])"
proof (induction "max_retries - retries" arbitrary: retries events w)
  case 0
  then show ?case by (simp add: send_to_openai_loop_exhausted)
next
  case (Suc n)
  then have less: "retries < max_retries" by simp
  obtain w' where c: "openai_create api w model prompt = (Inl error_str, w')"
    using assms(1) [of w] by (cases "openai_create api w model prompt") simp
  from Suc.hyps(2) have n: "n = max_retries - (retries + 1)" by simp
  from Suc.hyps(2) have m: "max_retries - retries = Suc (max_retries - (retries + 1))" by simp
  show ?case
    unfolding send_to_openai_loop_retry [OF less c assms(2) assms(3)]
    using Suc.hyps(1) [OF n, of "events @ [Requested prompt, Slept wait]" w']
    by (simp add: m)
qed

text \<open>
  The only exceptions that leave the loop are those \<open>float\<close> and \<open>time.sleep\<close> raise in
  the handler.
\<close>

lemma send_to_openai_loop_inl:
  "fst (send_to_openai_loop api prompt model retries events w) = Inl e \<Longrightarrow>
     \<exists>error_str. py_in ''Rate limit reached'' error_str \<and> sleep_wait_time error_str = Inl e"
proof (induction api prompt model retries events w rule: send_to_openai_loop.induct)
  case (1 api prompt model retries events w)
  show ?case
  proof (cases "retries < max_retries")
    case False
    with "1.prems" show ?thesis by (simp add: send_to_openai_loop_exhausted)
  next
    case True
    obtain r w' where c: "openai_create api w model prompt = (r, w')"
      by (cases "openai_create api w model prompt")
    show ?thesis
    proof (cases r)
      case (Inr content)
      with True c "1.prems" show ?thesis by (simp add: send_to_openai_loop_success)
    next
      case (Inl error_str)
      show ?thesis
      proof (cases "py_in ''Rate limit reached'' error_str")
        case False
        with True c Inl "1.prems" show ?thesis by (simp add: send_to_openai_loop_other_error)
      next
        case rate: True
        show ?thesis
        proof (cases "sleep_wait_time error_str")
          case wl: (Inl e')
          with True c \<open>r = Inl error_str\<close> rate "1.prems" have "e' = e"
            by (simp add: send_to_openai_loop_raises)
          with wl rate show ?thesis by blast
        next
          case (Inr wait)
          from True c \<open>r = Inl error_str\<close> rate Inr "1.prems"
          have "fst (send_to_openai_loop api prompt model (retries + 1)
                  (events @ [Requested prompt, Slept wait]) w') = Inl e"
            by (simp add: send_to_openai_loop_retry)
          from "1.IH" [OF True c [symmetric] \<open>r = Inl error_str\<close> rate Inr this]
          show ?thesis .
        qed
      qed
    qed
  qed
qed

text \<open>
  A suggested wait of ten thousand million seconds is a number, and more than the clock
  holds: \<open>time.sleep\<close> raises \<open>OverflowError\<close>, which leaves the function after one call.
\<close>

lemma sleep_wait_time_overlong:
  "sleep_wait_time ''Rate limit reached. Please try again in 10000000000s.'' =
     Inl (OverflowError ''timestamp too large to convert to C _PyTime_t'')"
  by (simp add: sleep_wait_time_def wait_time_def match_wait_def startswith_def
      is_digit_or_dot_def is_digit_def py_float_def digits_value_def digit_value_def
      time_sleep_def sleep_limit_def Let_def)

lemma send_to_openai_overlong_wait:
  "send_to_openai
     \<lparr>openai_create = (\<lambda>w model prompt.
        (Inl ''Rate limit reached. Please try again in 10000000000s.'', Suc w)),
      ollama_chat = (\<lambda>w host model prompt. (Inl ''no server'', w))\<rparr>
     (0::nat) ''classify'' ''gpt-4o'' =
   (Inl (OverflowError ''timestamp too large to convert to C _PyTime_t''),
    [Requested ''classify''], 1)"
  unfolding send_to_openai_def
  by (subst send_to_openai_loop_raises
        [where e = "OverflowError ''timestamp too large to convert to C _PyTime_t''"
           and error_str = "''Rate limit reached. Please try again in 10000000000s.''"
           and w' = 1])
     (simp_all add: max_retries_def sleep_wait_time_overlong startswith_def)

text \<open>
  C4 at a rate-limit error whose suggested wait is not a number,
  \<^verbatim>\<open>Rate limit reached for gpt-4o. Please try again in 1.2.3s.\<close>: the pattern
  \<^verbatim>\<open>([\d.]+)s\<close> matches with group \<^verbatim>\<open>1.2.3\<close>, \<open>float\<close> raises \<open>ValueError\<close> inside the
  handler, and the exception leaves \<open>send_to_openai\<close> after one call: no fallback to
  the default of 2 seconds, no retry, no \<open>None\<close>. With \<^verbatim>\<open>1.5s\<close> in its place the same
  provider is called five times, with a sleep of 1.5 seconds after each call, and the
  result is \<open>None\<close>.
\<close>

theorem send_to_openai_malformed_wait:
  "send_to_openai
     \<lparr>openai_create = (\<lambda>w model prompt.
        (Inl ''Rate limit reached for gpt-4o. Please try again in 1.2.3s.'', Suc w)),
      ollama_chat = (\<lambda>w host model prompt. (Inl ''no server'', w))\<rparr>
     (0::nat) ''classify'' ''gpt-4o'' =
   (Inl (ValueError (''could not convert string to float: '' @ [CHR 0x27] @ ''1.2.3'' @ [CHR 0x27])),
    [Requested ''classify''], 1) \<and>
   send_to_openai
     \<lparr>openai_create = (\<lambda>w model prompt.
        (Inl ''Rate limit reached for gpt-4o. Please try again in 1.5s.'', Suc w)),
      ollama_chat = (\<lambda>w host model prompt. (Inl ''no server'', w))\<rparr>
     (0::nat) ''classify'' ''gpt-4o'' =
   (Inr None,
    [Requested ''classify'', Slept (3 / 2), Requested ''classify'', Slept (3 / 2),
     Requested ''classify'', Slept (3 / 2), Requested ''classify'', Slept (3 / 2),
     Requested ''classify'', Slept (3 / 2)], 5)"
  by code_simp

section \<open>Properties of the run\<close>

text \<open>The loop on a navigation in two parts, and what it does to the keys of \<open>results\<close>.\<close>

lemma process_files_append:
  "process_files E (xs @ ys) st = process_files E ys (process_files E xs st)"
  by (induction xs arbitrary: st) (auto split: prod.splits)

lemma process_files_keys:
  "fst ` set (results (process_files E nav st)) = fst ` set (results st) \<union> set nav"
  by (induction nav arbitrary: st) (auto split: prod.splits simp: dom_update)

lemma process_files_distinct:
  "distinct (map fst (results st)) \<Longrightarrow> distinct (map fst (results (process_files E nav st)))"
  by (induction nav arbitrary: st) (auto split: prod.splits simp: distinct_update)

lemma process_files_other:
  "file \<notin> set nav \<Longrightarrow>
     map_of (results (process_files E nav st)) file = map_of (results st) file"
  by (induction nav arbitrary: st) (auto split: prod.splits simp: update_conv')

lemma process_files_last:
  assumes "file \<notin> set after"
  shows "map_of (results (process_files E (before @ file # after) st)) file =
           Some (fst (process_file E (world (process_files E before st)) file))"
  using assms
  by (simp add: process_files_append process_files_other update_conv' split: prod.splits)

lemma one_item_per_key:
  "distinct (map fst al) \<Longrightarrow> k \<in> fst ` set al \<Longrightarrow> length (filter (\<lambda>kv. fst kv = k) al) = 1"
proof (induction al)
  case Nil
  then show ?case by simp
next
  case (Cons p al)
  show ?case
  proof (cases "fst p = k")
    case True
    with Cons.prems(1) have "k \<notin> fst ` set al" by auto
    then have "filter (\<lambda>kv. fst kv = k) al = []" by (auto simp: filter_empty_conv)
    with True show ?thesis by simp
  next
    case False
    with Cons show ?thesis by auto
  qed
qed

text \<open>
  The events of a dispatch are calls and sleeps: they are no lookup, dispatch or
  interpretation of any document.
\<close>

lemma send_to_openai_loop_events:
  "list_all is_backend_event events \<Longrightarrow>
     list_all is_backend_event
       (fst (snd (send_to_openai_loop api prompt model retries events w)))"
proof (induction api prompt model retries events w rule: send_to_openai_loop.induct)
  case (1 api prompt model retries events w)
  show ?case
  proof (cases "retries < max_retries")
    case False
    with "1.prems" show ?thesis by (simp add: send_to_openai_loop_exhausted)
  next
    case True
    obtain r w' where c: "openai_create api w model prompt = (r, w')"
      by (cases "openai_create api w model prompt")
    show ?thesis
    proof (cases r)
      case (Inr content)
      with True c "1.prems" show ?thesis by (simp add: send_to_openai_loop_success)
    next
      case (Inl error_str)
      show ?thesis
      proof (cases "py_in ''Rate limit reached'' error_str")
        case False
        with True c Inl "1.prems" show ?thesis by (simp add: send_to_openai_loop_other_error)
      next
        case rate: True
        show ?thesis
        proof (cases "sleep_wait_time error_str")
          case (Inl e)
          with True c \<open>r = Inl error_str\<close> rate "1.prems" show ?thesis
            by (simp add: send_to_openai_loop_raises)
        next
          case (Inr wait)
          from "1.prems" have "list_all is_backend_event (events @ [Requested prompt, Slept wait])"
            by simp
          from "1.IH" [OF True c [symmetric] \<open>r = Inl error_str\<close> rate Inr this]
          show ?thesis
            using True c \<open>r = Inl error_str\<close> rate Inr by (simp add: send_to_openai_loop_retry)
        qed
      qed
    qed
  qed
qed

lemma send_request_events:
  "list_all is_backend_event (fst (snd (send_request api w prompt provider model ollama_host)))"
  using send_to_openai_loop_events [of "[]" api prompt model 0 w]
  by (auto simp: send_request_def send_to_openai_def send_to_ollama_def
      split: prod.splits sum.splits)

lemma backend_events_of_no_document:
  assumes "list_all is_backend_event evs"
  shows "filter (locates f) evs = []"
    and "filter (dispatches f) evs = []"
    and "filter (interprets f) evs = []"
proof -
  have "\<not> locates f ev \<and> \<not> dispatches f ev \<and> \<not> interprets f ev"
    if "is_backend_event ev" for ev
    using that by (cases ev) simp_all
  with assms show "filter (locates f) evs = []" "filter (dispatches f) evs = []"
    "filter (interprets f) evs = []"
    by (auto simp: filter_empty_conv list_all_iff)
qed

text \<open>
  One document: one lookup; one dispatch when the lookup succeeds; at most one
  interpretation, and one when the provider answers with a text.
\<close>

lemma process_try_events:
  "length (filter (locates f) (fst (snd (process_try E w file)))) = (if file = f then 1 else 0)"
  "length (filter (dispatches f) (fst (snd (process_try E w file)))) =
     (if file = f \<and> \<not> isl (read_file_content (env_fs E) (env_yaml_load E) file
                              (env_config_path E) (env_clone_dir E))
      then 1 else 0)"
  "length (filter (interprets f) (fst (snd (process_try E w file))))
     \<le> length (filter (dispatches f) (fst (snd (process_try E w file))))"
proof -
  let ?read = "read_file_content (env_fs E) (env_yaml_load E) file
                 (env_config_path E) (env_clone_dir E)"
  show "length (filter (locates f) (fst (snd (process_try E w file)))) = (if file = f then 1 else 0)"
  proof (cases ?read)
    case (Inl e)
    then show ?thesis by (simp add: process_try_def)
  next
    case (Inr content)
    let ?prompt = "custom_prompt_head E @ truncate_content content (arg_max_chars E) @
                     custom_prompt_tail E"
    note ev = backend_events_of_no_document(1) [OF send_request_events,
        of f "env_backend E" w ?prompt "arg_provider E" "arg_model E" "arg_ollama_host E"]
    from Inr ev show ?thesis
      by (auto simp: process_try_def Let_def split: prod.splits sum.splits option.splits)
  qed
  show "length (filter (dispatches f) (fst (snd (process_try E w file)))) =
     (if file = f \<and> \<not> isl ?read then 1 else 0)"
  proof (cases ?read)
    case (Inl e)
    then show ?thesis by (simp add: process_try_def)
  next
    case (Inr content)
    let ?prompt = "custom_prompt_head E @ truncate_content content (arg_max_chars E) @
                     custom_prompt_tail E"
    note ev = backend_events_of_no_document(2) [OF send_request_events,
        of f "env_backend E" w ?prompt "arg_provider E" "arg_model E" "arg_ollama_host E"]
    from Inr ev show ?thesis
      by (auto simp: process_try_def Let_def split: prod.splits sum.splits option.splits)
  qed
  show "length (filter (interprets f) (fst (snd (process_try E w file))))
     \<le> length (filter (dispatches f) (fst (snd (process_try E w file))))"
  proof (cases ?read)
    case (Inl e)
    then show ?thesis by (simp add: process_try_def)
  next
    case (Inr content)
    let ?prompt = "custom_prompt_head E @ truncate_content content (arg_max_chars E) @
                     custom_prompt_tail E"
    note ev = backend_events_of_no_document(3) [OF send_request_events,
        of f "env_backend E" w ?prompt "arg_provider E" "arg_model E" "arg_ollama_host E"]
    from Inr ev show ?thesis
      by (auto simp: process_try_def Let_def split: prod.splits sum.splits option.splits)
  qed
qed

lemma process_file_events:
  "fst (snd (process_file E w file)) = fst (snd (process_try E w file))"
  by (auto simp: process_file_def split: prod.splits sum.splits)

lemma process_try_interprets_all:
  assumes "\<And>w prompt. \<exists>r evs w'. r \<noteq> [] \<and>
      send_request (env_backend E) w prompt (arg_provider E) (arg_model E) (arg_ollama_host E) =
        (Inr (Some r), evs, w')"
  shows "length (filter (interprets f) (fst (snd (process_try E w file)))) =
         length (filter (dispatches f) (fst (snd (process_try E w file))))"
proof (cases "read_file_content (env_fs E) (env_yaml_load E) file
                 (env_config_path E) (env_clone_dir E)")
  case (Inl e)
  then show ?thesis by (simp add: process_try_def)
next
  case (Inr content)
  let ?prompt = "custom_prompt_head E @ truncate_content content (arg_max_chars E) @
                   custom_prompt_tail E"
  obtain r evs w' where r: "r \<noteq> []"
    and s: "send_request (env_backend E) w ?prompt (arg_provider E) (arg_model E)
              (arg_ollama_host E) = (Inr (Some r), evs, w')"
    using assms [of w ?prompt] by blast
  from send_request_events [of "env_backend E" w ?prompt "arg_provider E" "arg_model E"
      "arg_ollama_host E"] s
  have b: "list_all is_backend_event evs" by simp
  from Inr r s backend_events_of_no_document(2,3) [OF b, of f] show ?thesis
    by (simp add: process_try_def Let_def)
qed

text \<open>The whole navigation: the counts add up, occurrence by occurrence.\<close>

lemma process_files_step:
  "process_files E (file # rest) st =
     process_files E rest
       \<lparr>results = AList.update file (fst (process_file E (world st) file)) (results st),
        world = snd (snd (process_file E (world st) file)),
        trace = trace st @ fst (snd (process_try E (world st) file)) @ [Slept 1]\<rparr>"
  by (simp add: process_file_events [symmetric] split: prod.splits)

lemma process_files_trace:
  "length (filter (locates f) (trace (process_files E nav st))) =
     length (filter (locates f) (trace st)) + count_list nav f"
  "length (filter (dispatches f) (trace (process_files E nav st))) =
     length (filter (dispatches f) (trace st)) +
     (if isl (read_file_content (env_fs E) (env_yaml_load E) f (env_config_path E) (env_clone_dir E))
      then 0 else count_list nav f)"
  "length (filter (interprets f) (trace (process_files E nav st))) \<le>
     length (filter (interprets f) (trace st)) +
     (if isl (read_file_content (env_fs E) (env_yaml_load E) f (env_config_path E) (env_clone_dir E))
      then 0 else count_list nav f)"
proof (induction nav arbitrary: st)
  case Nil
  {
    case 1 show ?case by simp
  next
    case 2 show ?case by simp
  next
    case 3 show ?case by simp
  }
next
  case (Cons doc rest)
  {
    case 1
    show ?case
      unfolding process_files_step Cons.IH(1) by (simp add: process_try_events(1))
  next
    case 2
    show ?case
      unfolding process_files_step Cons.IH(2) by (simp add: process_try_events(2))
  next
    case 3
    let ?evs = "fst (snd (process_try E (world st) doc))"
    let ?st = "\<lparr>results = AList.update doc (fst (process_file E (world st) doc)) (results st),
        world = snd (snd (process_file E (world st) doc)),
        trace = trace st @ ?evs @ [Slept 1]\<rparr>"
    let ?ok = "\<not> isl (read_file_content (env_fs E) (env_yaml_load E) f
                        (env_config_path E) (env_clone_dir E))"
    have tr: "length (filter (interprets f) (trace ?st)) =
        length (filter (interprets f) (trace st)) + length (filter (interprets f) ?evs)"
      by simp
    have step: "length (filter (interprets f) ?evs) \<le> (if doc = f \<and> ?ok then 1 else 0)"
    proof (cases "doc = f")
      case True
      from process_try_events(2,3) [of f E "world st" f] show ?thesis
        unfolding True by (cases ?ok) simp_all
    next
      case False
      with process_try_events(2,3) [of f E "world st" doc] show ?thesis by simp
    qed
    have cnt: "(if doc = f \<and> ?ok then 1 else 0) + (if ?ok then count_list rest f else 0) =
        (if ?ok then count_list (doc # rest) f else 0)"
      by simp
    define a where "a = length (filter (interprets f) (trace (process_files E rest ?st)))"
    define b where "b = length (filter (interprets f) (trace st))"
    define s where "s = length (filter (interprets f) ?evs)"
    define k where "k = (if ?ok then count_list rest f else 0)"
    define d :: nat where "d = (if doc = f \<and> ?ok then 1 else 0)"
    define t where "t = (if ?ok then count_list (doc # rest) f else 0)"
    from Cons.IH(3) [of ?st] have "a \<le> length (filter (interprets f) (trace ?st)) + k"
      unfolding a_def k_def by (cases ?ok) simp_all
    moreover from tr have "length (filter (interprets f) (trace ?st)) = b + s"
      unfolding b_def s_def .
    moreover from step have "s \<le> d" unfolding s_def d_def .
    moreover from cnt have "d + k = t" unfolding d_def k_def t_def .
    ultimately have "a \<le> b + t" by linarith
    then show ?case
      unfolding process_files_step a_def b_def t_def by (cases ?ok) simp_all
  }
qed

lemma process_files_interprets_all:
  assumes "\<And>w prompt. \<exists>r evs w'. r \<noteq> [] \<and>
      send_request (env_backend E) w prompt (arg_provider E) (arg_model E) (arg_ollama_host E) =
        (Inr (Some r), evs, w')"
  shows "length (filter (interprets f) (trace (process_files E nav st))) =
     length (filter (interprets f) (trace st)) +
     (if isl (read_file_content (env_fs E) (env_yaml_load E) f (env_config_path E) (env_clone_dir E))
      then 0 else count_list nav f)"
proof (induction nav arbitrary: st)
  case Nil
  show ?case by simp
next
  case (Cons doc rest)
  show ?case
    unfolding process_files_step Cons.IH
    by (simp add: process_try_interprets_all [OF assms] process_try_events(2))
qed

text \<open>The three ways one document ends: the lookup raises, the dispatch raises, a text comes back.\<close>

lemma process_file_locate_fails:
  "read_file_content (env_fs E) (env_yaml_load E) file (env_config_path E) (env_clone_dir E) = Inl e
     \<Longrightarrow> fst (process_file E w file) = ErrMsg (err_msg file e)"
  by (simp add: process_file_def process_try_def)

lemma process_file_dispatch_fails:
  "read_file_content (env_fs E) (env_yaml_load E) file (env_config_path E) (env_clone_dir E)
     = Inr content \<Longrightarrow>
   fst (send_request (env_backend E) w
          (custom_prompt_head E @ truncate_content content (arg_max_chars E) @ custom_prompt_tail E)
          (arg_provider E) (arg_model E) (arg_ollama_host E)) = Inl e \<Longrightarrow>
   fst (process_file E w file) = ErrMsg (err_msg file e)"
  by (auto simp: process_file_def process_try_def Let_def split: prod.splits sum.splits option.splits)

lemma process_file_interpreted:
  "read_file_content (env_fs E) (env_yaml_load E) file (env_config_path E) (env_clone_dir E)
     = Inr content \<Longrightarrow>
   fst (send_request (env_backend E) w
          (custom_prompt_head E @ truncate_content content (arg_max_chars E) @ custom_prompt_tail E)
          (arg_provider E) (arg_model E) (arg_ollama_host E)) = Inr (Some r) \<Longrightarrow>
   r \<noteq> [] \<Longrightarrow>
   fst (process_file E w file) = Parsed (parse_json_response (env_json_loads E) r)"
  by (auto simp: process_file_def process_try_def Let_def split: prod.splits sum.splits option.splits)

text \<open>
  C2: every reference of the navigation has exactly one entry in the report, whatever
  failed: the keys of \<open>results\<close> are distinct and are the references of the navigation.
  The entry of a reference is what \<open>process_file\<close> gives at its last occurrence, in the
  world the documents before it left: the run went on to it past every failure. An
  exception of the lookup, or of the dispatch, is caught and its message is the entry;
  a response is interpreted by \<open>parse_json_response\<close>, which raises nothing.
\<close>

theorem run_report_entries:
  "distinct (map fst (results (run_report E w0 nav_files))) \<and>
   fst ` set (results (run_report E w0 nav_files)) = set nav_files \<and>
   (file \<in> set nav_files \<longrightarrow>
      length (filter (\<lambda>kv. fst kv = file) (results (run_report E w0 nav_files))) = 1) \<and>
   (nav_files = before @ file # after \<and> file \<notin> set after \<longrightarrow>
      map_of (results (run_report E w0 nav_files)) file =
        Some (fst (process_file E (world (run_report E w0 before)) file))) \<and>
   (read_file_content (env_fs E) (env_yaml_load E) file (env_config_path E) (env_clone_dir E)
      = Inl e \<longrightarrow>
      fst (process_file E w file) = ErrMsg (err_msg file e)) \<and>
   (read_file_content (env_fs E) (env_yaml_load E) file (env_config_path E) (env_clone_dir E)
      = Inr content \<and>
    fst (send_request (env_backend E) w
           (custom_prompt_head E @ truncate_content content (arg_max_chars E) @
            custom_prompt_tail E)
           (arg_provider E) (arg_model E) (arg_ollama_host E)) = Inl e \<longrightarrow>
      fst (process_file E w file) = ErrMsg (err_msg file e)) \<and>
   (read_file_content (env_fs E) (env_yaml_load E) file (env_config_path E) (env_clone_dir E)
      = Inr content \<and>
    fst (send_request (env_backend E) w
           (custom_prompt_head E @ truncate_content content (arg_max_chars E) @
            custom_prompt_tail E)
           (arg_provider E) (arg_model E) (arg_ollama_host E)) = Inr (Some r) \<and> r \<noteq> [] \<longrightarrow>
      fst (process_file E w file) = Parsed (parse_json_response (env_json_loads E) r))"
proof -
  let ?res = "results (run_report E w0 nav_files)"
  have d: "distinct (map fst ?res)"
    unfolding run_report_def by (rule process_files_distinct) simp
  have k: "fst ` set ?res = set nav_files"
    unfolding run_report_def by (simp add: process_files_keys)
  have one: "length (filter (\<lambda>kv. fst kv = file) ?res) = 1" if "file \<in> set nav_files"
    using one_item_per_key [OF d, of "file"] k that by simp
  have last: "map_of ?res file = Some (fst (process_file E (world (run_report E w0 before)) file))"
    if "nav_files = before @ file # after" "file \<notin> set after"
    using that by (simp add: run_report_def process_files_last)
  from d k one last show ?thesis
    using process_file_locate_fails [of E "file" e w]
      process_file_dispatch_fails [of E "file" content w e]
      process_file_interpreted [of E "file" content w r]
    by blast
qed

theorem run_report_entries_witness:
  "map_of (results (run_report example_env 0 [''a.md'', ''missing.md'', ''b.md'', ''c.md'']))
     ''missing.md'' =
     Some (ErrMsg (err_msg ''missing.md'' (FileNotFoundError
       (''File '' @ [CHR 0x27] @ ''missing.md'' @ [CHR 0x27] @ '' not found in expected locations.'')))) \<and>
   map_of (results (run_report example_env 0 [''a.md'', ''missing.md'', ''b.md'', ''c.md'']))
     ''b.md'' =
     Some (ErrMsg (err_msg ''b.md'' (ValueError
       (''could not convert string to float: '' @ [CHR 0x27] @ ''1.2.3'' @ [CHR 0x27])))) \<and>
   map_of (results (run_report example_env 0 [''a.md'', ''missing.md'', ''b.md'', ''c.md'']))
     ''c.md'' = Some (Parsed (JObject [(''dominant'', JString ''reference'')])) \<and>
   length (filter (\<lambda>kv. fst kv = ''b.md'')
     (results (run_report example_env 0 [''a.md'', ''missing.md'', ''b.md'', ''c.md'']))) = 1 \<and>
   map fst (results (run_report example_env 0 [''a.md'', ''missing.md'', ''b.md'', ''c.md''])) =
     [''a.md'', ''missing.md'', ''b.md'', ''c.md'']"
proof -
  let ?nav = "[''a.md'', ''missing.md'', ''b.md'', ''c.md'']"
  let ?res = "results (run_report example_env 0 ?nav)"
  let ?not_found = "FileNotFoundError
       (''File '' @ [CHR 0x27] @ ''missing.md'' @ [CHR 0x27] @ '' not found in expected locations.'')"
  let ?no_float = "ValueError
       (''could not convert string to float: '' @ [CHR 0x27] @ ''1.2.3'' @ [CHR 0x27])"
  have missing: "read_file_content (env_fs example_env) (env_yaml_load example_env) ''missing.md''
      (env_config_path example_env) (env_clone_dir example_env) = Inl ?not_found"
    by code_simp
  have n1: "?nav = [''a.md''] @ ''missing.md'' # [''b.md'', ''c.md''] \<and>
      ''missing.md'' \<notin> set [''b.md'', ''c.md'']"
    by simp
  from run_report_entries [of example_env 0 ?nav "''missing.md''" "[''a.md'']" "[''b.md'', ''c.md'']"
      ?not_found "world (run_report example_env 0 [''a.md''])"] missing n1
  have r1: "map_of ?res ''missing.md'' = Some (ErrMsg (err_msg ''missing.md'' ?not_found))"
    by presburger
  have w2: "world (run_report example_env 0 [''a.md'', ''missing.md'']) = 1"
    by code_simp
  have b: "read_file_content (env_fs example_env) (env_yaml_load example_env) ''b.md''
      (env_config_path example_env) (env_clone_dir example_env) = Inr ''Every option, one by one.'' \<and>
    fst (send_request (env_backend example_env) 1
           (custom_prompt_head example_env @
            truncate_content ''Every option, one by one.'' (arg_max_chars example_env) @
            custom_prompt_tail example_env)
           (arg_provider example_env) (arg_model example_env) (arg_ollama_host example_env))
      = Inl ?no_float"
    by code_simp
  have n2: "?nav = [''a.md'', ''missing.md''] @ ''b.md'' # [''c.md''] \<and> ''b.md'' \<notin> set [''c.md'']"
    by simp
  from run_report_entries [of example_env 0 ?nav "''b.md''" "[''a.md'', ''missing.md'']" "[''c.md'']"
      ?no_float 1 "''Every option, one by one.''"] b n2 w2
  have r2: "map_of ?res ''b.md'' = Some (ErrMsg (err_msg ''b.md'' ?no_float))"
    by presburger
  have "''b.md'' \<in> set ?nav" by simp
  with run_report_entries [of example_env 0 ?nav "''b.md''"]
  have r3: "length (filter (\<lambda>kv. fst kv = ''b.md'') ?res) = 1"
    by presburger
  have r4: "map_of ?res ''c.md'' = Some (Parsed (JObject [(''dominant'', JString ''reference'')]))"
    by code_simp
  have r5: "map fst ?res = ?nav"
    by code_simp
  from r1 r2 r3 r4 r5 show ?thesis by blast
qed

text \<open>
  C10: a reference that occurs again later in the navigation is looked up once per
  occurrence; it is dispatched once per occurrence when the lookup finds it (and never
  when it does not), interpreted at most once per dispatch, and once per dispatch with a
  provider that always answers. The report has one entry for it, and the entry is the
  result of the last occurrence.
\<close>

theorem duplicate_reference_last_wins:
  assumes "nav_files = before @ file # after"
    and "file \<in> set before"
    and "file \<notin> set after"
  shows
    "length (filter (\<lambda>kv. fst kv = file) (results (run_report E w nav_files))) = 1 \<and>
     map_of (results (run_report E w nav_files)) file =
       Some (fst (process_file E (world (run_report E w before)) file)) \<and>
     2 \<le> count_list nav_files file \<and>
     length (filter (locates file) (trace (run_report E w nav_files))) = count_list nav_files file \<and>
     length (filter (dispatches file) (trace (run_report E w nav_files))) =
       (if isl (read_file_content (env_fs E) (env_yaml_load E) file
                  (env_config_path E) (env_clone_dir E))
        then 0 else count_list nav_files file) \<and>
     length (filter (interprets file) (trace (run_report E w nav_files)))
       \<le> length (filter (dispatches file) (trace (run_report E w nav_files))) \<and>
     ((\<forall>w prompt. \<exists>r evs w'. r \<noteq> [] \<and>
         send_request (env_backend E) w prompt (arg_provider E) (arg_model E) (arg_ollama_host E) =
           (Inr (Some r), evs, w')) \<longrightarrow>
      length (filter (interprets file) (trace (run_report E w nav_files))) =
        length (filter (dispatches file) (trace (run_report E w nav_files))))"
proof -
  let ?res = "results (run_report E w nav_files)"
  let ?tr = "trace (run_report E w nav_files)"
  have d: "distinct (map fst ?res)"
    unfolding run_report_def by (rule process_files_distinct) simp
  have k: "fst ` set ?res = set nav_files"
    unfolding run_report_def by (simp add: process_files_keys)
  from assms(1) have "file \<in> set nav_files" by simp
  with one_item_per_key [OF d, of "file"] k
  have one: "length (filter (\<lambda>kv. fst kv = file) ?res) = 1" by simp
  have last: "map_of ?res file = Some (fst (process_file E (world (run_report E w before)) file))"
    using assms(1,3) by (simp add: run_report_def process_files_last)
  from assms(2) have "1 \<le> count_list before file"
    using count_list_0_iff [of before "file"] by (cases "count_list before file") simp_all
  then have twice: "2 \<le> count_list nav_files file"
    unfolding assms(1) by simp
  have loc: "length (filter (locates file) ?tr) = count_list nav_files file"
    by (simp add: run_report_def process_files_trace(1))
  have dis: "length (filter (dispatches file) ?tr) =
       (if isl (read_file_content (env_fs E) (env_yaml_load E) file
                  (env_config_path E) (env_clone_dir E))
        then 0 else count_list nav_files file)"
    by (simp add: run_report_def process_files_trace(2))
  have int: "length (filter (interprets file) ?tr) \<le> length (filter (dispatches file) ?tr)"
    unfolding dis using process_files_trace(3) [of "file" E nav_files
        "\<lparr>results = [], world = w, trace = []\<rparr>"]
    by (simp add: run_report_def)
  have all: "length (filter (interprets file) ?tr) = length (filter (dispatches file) ?tr)"
    if "\<forall>w prompt. \<exists>r evs w'. r \<noteq> [] \<and>
         send_request (env_backend E) w prompt (arg_provider E) (arg_model E) (arg_ollama_host E) =
           (Inr (Some r), evs, w')"
    unfolding dis using process_files_interprets_all [of E "file" nav_files
        "\<lparr>results = [], world = w, trace = []\<rparr>"] that
    by (simp add: run_report_def)
  from one last twice loc dis int all show ?thesis by blast
qed

theorem duplicate_reference_last_wins_witness:
  \<open>results (run_report example_env 0 [''a.md'']) =
     [(''a.md'', Parsed (JObject [(''dominant'', JString ''tutorial'')]))] \<and>
   map_of (results (run_report example_env 0 [''a.md'', ''b.md'', ''a.md''])) ''a.md'' =
     Some (Parsed (JObject [(''dominant'', JString ''reference'')])) \<and>
   length (filter (\<lambda>kv. fst kv = ''a.md'')
     (results (run_report example_env 0 [''a.md'', ''b.md'', ''a.md'']))) = 1 \<and>
   map fst (results (run_report example_env 0 [''a.md'', ''b.md'', ''a.md''])) = [''a.md'', ''b.md''] \<and>
   length (filter (locates ''a.md'')
     (trace (run_report example_env 0 [''a.md'', ''b.md'', ''a.md'']))) = 2 \<and>
   length (filter (dispatches ''a.md'')
     (trace (run_report example_env 0 [''a.md'', ''b.md'', ''a.md'']))) = 2 \<and>
   length (filter (interprets ''a.md'')
     (trace (run_report
        (example_env\<lparr>env_backend :=
           \<lparr>openai_create = (\<lambda>w model prompt. (Inr ''{"dominant": "how_to"}'', Suc w)),
            ollama_chat = (\<lambda>w host model prompt. (Inl ''connection refused'', w))\<rparr>\<rparr>)
        0 [''a.md'', ''b.md'', ''a.md'']))) = 2\<close>
proof -
  let ?nav = "[''a.md'', ''b.md'', ''a.md'']"
  have n: "?nav = [''a.md'', ''b.md''] @ ''a.md'' # []" "''a.md'' \<in> set [''a.md'', ''b.md'']"
    "''a.md'' \<notin> set []"
    by simp_all
  note t = duplicate_reference_last_wins [OF n, of example_env 0]
  have first: \<open>results (run_report example_env 0 [''a.md'']) =
     [(''a.md'', Parsed (JObject [(''dominant'', JString ''tutorial'')]))]\<close>
    by code_simp
  have w: "world (run_report example_env 0 [''a.md'', ''b.md'']) = 2"
    by code_simp
  have p: "fst (process_file example_env 2 ''a.md'') =
      Parsed (JObject [(''dominant'', JString ''reference'')])"
    by code_simp
  have c: "count_list ?nav ''a.md'' = 2"
    by simp
  have ok: "\<not> isl (read_file_content (env_fs example_env) (env_yaml_load example_env) ''a.md''
      (env_config_path example_env) (env_clone_dir example_env))"
    by code_simp
  from t w p have r1: "map_of (results (run_report example_env 0 ?nav)) ''a.md'' =
      Some (Parsed (JObject [(''dominant'', JString ''reference'')]))"
    by presburger
  from t have r2: "length (filter (\<lambda>kv. fst kv = ''a.md'')
      (results (run_report example_env 0 ?nav))) = 1"
    by presburger
  have r3: "map fst (results (run_report example_env 0 ?nav)) = [''a.md'', ''b.md'']"
    by code_simp
  from t c have r4: "length (filter (locates ''a.md'') (trace (run_report example_env 0 ?nav))) = 2"
    by presburger
  from t c ok have r5:
    "length (filter (dispatches ''a.md'') (trace (run_report example_env 0 ?nav))) = 2"
    by presburger
  let ?steady = \<open>example_env\<lparr>env_backend :=
           \<lparr>openai_create = (\<lambda>w model prompt. (Inr ''{"dominant": "how_to"}'', Suc w)),
            ollama_chat = (\<lambda>w host model prompt. (Inl ''connection refused'', w))\<rparr>\<rparr>\<close>
  have answers: "\<forall>w prompt. \<exists>r evs w'. r \<noteq> [] \<and>
      send_request (env_backend ?steady) w prompt (arg_provider ?steady) (arg_model ?steady)
        (arg_ollama_host ?steady) = (Inr (Some r), evs, w')"
    by (simp add: send_request_def send_to_openai_def send_to_openai_loop_success
        max_retries_def example_env_def py_lower_def)
  have ok': "\<not> isl (read_file_content (env_fs ?steady) (env_yaml_load ?steady) ''a.md''
      (env_config_path ?steady) (env_clone_dir ?steady))"
    by code_simp
  from duplicate_reference_last_wins [OF n, of ?steady 0] answers c ok'
  have r6: "length (filter (interprets ''a.md'') (trace (run_report ?steady 0 ?nav))) = 2"
    by presburger
  from first r1 r2 r3 r4 r5 r6 show ?thesis by blast
qed

section \<open>The fuel of the decoder\<close>

text \<open>
  A scan that succeeds consumes at least one character, and succeeds again with any
  fuel that is at least the number of characters it consumed.
\<close>

lemma scan_string_shorter:
  "scan_string s = Some (chars, rest) \<Longrightarrow> length rest < length s"
  by (induction s arbitrary: chars rest rule: scan_string.induct)
     (fastforce split: if_splits option.splits prod.splits)+

lemma skip_ws_length: "length (skip_ws s) \<le> length s"
  by (simp add: skip_ws_def length_dropWhile_le)

lemma scan_int_shorter: "scan_int s = Some (v, rest) \<Longrightarrow> length rest < length s"
  by (cases s) (auto simp: scan_int_def Let_def split: if_splits)

lemma tl_skip_ws_length: "length (tl (skip_ws s)) \<le> length s"
  using skip_ws_length [of s] by simp

lemma scan_shorter:
  "(\<forall>s v rest. scan_once n s = Some (v, rest) \<longrightarrow> length rest < length s) \<and>
   (\<forall>s pairs v rest. scan_members n s pairs = Some (v, rest) \<longrightarrow> length rest < length s) \<and>
   (\<forall>s elements v rest. scan_elements n s elements = Some (v, rest) \<longrightarrow>
      length rest < length s)"
proof (induction n)
  case 0
  show ?case by simp
next
  case (Suc n)
  have once: "length rest < length s" if "scan_once (Suc n) s = Some (v, rest)" for s v rest
  proof -
    from that have ne: "s \<noteq> []" by (auto split: if_splits)
    then have tl: "length (tl s) < length s" by (cases s) simp_all
    consider (str) "hd s = CHR 0x22"
      | (obj) "hd s \<noteq> CHR 0x22" "hd s = CHR ''{''"
      | (arr) "hd s \<noteq> CHR 0x22" "hd s \<noteq> CHR ''{''" "hd s = CHR ''[''"
      | (lit) "hd s \<noteq> CHR 0x22" "hd s \<noteq> CHR ''{''" "hd s \<noteq> CHR ''[''"
      by blast
    then show ?thesis
    proof cases
      case str
      with that ne obtain chars where "scan_string (tl s) = Some (chars, rest)"
        by (auto split: option.splits)
      from scan_string_shorter [OF this] tl show ?thesis by simp
    next
      case obj
      let ?r = "skip_ws (tl s)"
      from skip_ws_length [of "tl s"] tl have r: "length ?r < length s" by simp
      from that ne obj have "?r \<noteq> []" by (auto simp: Let_def split: if_splits)
      then have tr: "length (tl ?r) < length ?r" by (cases ?r) simp_all
      from that ne obj consider "rest = tl ?r" | "scan_members n (tl ?r) [] = Some (v, rest)"
        by (auto simp: Let_def split: if_splits)
      then show ?thesis
      proof cases
        case 1
        with r tr show ?thesis by simp
      next
        case 2
        with Suc have "length rest < length (tl ?r)" by blast
        with r tr show ?thesis by simp
      qed
    next
      case arr
      let ?r = "skip_ws (tl s)"
      from skip_ws_length [of "tl s"] tl have r: "length ?r < length s" by simp
      from that ne arr have "?r \<noteq> []" by (auto simp: Let_def split: if_splits)
      then have tr: "length (tl ?r) < length ?r" by (cases ?r) simp_all
      from that ne arr consider "rest = tl ?r" | "scan_elements n ?r [] = Some (v, rest)"
        by (auto simp: Let_def split: if_splits)
      then show ?thesis
      proof cases
        case 1
        with r tr show ?thesis by simp
      next
        case 2
        with Suc have "length rest < length ?r" by blast
        with r show ?thesis by simp
      qed
    next
      case lit
      with that ne consider "startswith s ''null''" "rest = drop 4 s"
        | "startswith s ''true''" "rest = drop 4 s"
        | "startswith s ''false''" "rest = drop 5 s"
        | "scan_int s = Some (v, rest)"
        by (auto split: if_splits)
      then show ?thesis
      proof cases
        case 4
        then show ?thesis by (rule scan_int_shorter)
      qed (use ne in \<open>auto simp: startswith_def\<close>)
    qed
  qed
  have members: "length rest < length s"
    if "scan_members (Suc n) s pairs = Some (v, rest)" for s pairs v rest
  proof -
    from that obtain key r where k: "scan_string s = Some (key, r)"
      by (auto split: option.splits)
    let ?r1 = "skip_ws r"
    from scan_string_shorter [OF k] skip_ws_length [of r] have r1: "length ?r1 < length s" by simp
    from that k have c: "?r1 \<noteq> []" "hd ?r1 = CHR '':''"
      by (auto simp: Let_def split: if_splits)
    from that k c obtain v' r2 where o: "scan_once n (skip_ws (tl ?r1)) = Some (v', r2)"
      by (auto simp: Let_def split: option.splits)
    with Suc have "length r2 < length (skip_ws (tl ?r1))" by blast
    with tl_skip_ws_length [of "tl ?r1"] skip_ws_length [of "tl ?r1"] r1
    have r2: "length r2 < length s" by (cases ?r1) simp_all
    let ?r3 = "skip_ws r2"
    from skip_ws_length [of r2] r2 have r3: "length ?r3 < length s" by simp
    from that k c o have ne3: "?r3 \<noteq> []" by (auto simp: Let_def split: if_splits)
    then have t3: "length (tl ?r3) < length ?r3" by (cases ?r3) simp_all
    let ?r4 = "skip_ws (tl ?r3)"
    from that k c o ne3 consider "rest = tl ?r3"
      | "?r4 \<noteq> []" "scan_members n (tl ?r4) (AList.update key v' pairs) = Some (v, rest)"
      by (auto simp: Let_def split: if_splits)
    then show ?thesis
    proof cases
      case 1
      with r3 t3 show ?thesis by simp
    next
      case 2
      with Suc have "length rest < length (tl ?r4)" by blast
      moreover have "length (tl ?r4) \<le> length (tl ?r3)" by (rule tl_skip_ws_length)
      ultimately show ?thesis using r3 t3 by simp
    qed
  qed
  have elements: "length rest < length s"
    if "scan_elements (Suc n) s elements = Some (v, rest)" for s elements v rest
  proof -
    from that obtain v' r where o: "scan_once n s = Some (v', r)"
      by (auto split: option.splits)
    with Suc have r: "length r < length s" by blast
    let ?r1 = "skip_ws r"
    from skip_ws_length [of r] r have r1: "length ?r1 < length s" by simp
    from that o have ne: "?r1 \<noteq> []" by (auto simp: Let_def split: if_splits)
    then have t1: "length (tl ?r1) < length ?r1" by (cases ?r1) simp_all
    from that o ne consider "rest = tl ?r1"
      | "scan_elements n (skip_ws (tl ?r1)) (elements @ [v']) = Some (v, rest)"
      by (auto simp: Let_def split: if_splits)
    then show ?thesis
    proof cases
      case 1
      with r1 t1 show ?thesis by simp
    next
      case 2
      with Suc have "length rest < length (skip_ws (tl ?r1))" by blast
      with skip_ws_length [of "tl ?r1"] r1 t1 show ?thesis by simp
    qed
  qed
  from once members elements show ?case by blast
qed


lemma scan_once_string:
  "s \<noteq> [] \<Longrightarrow> hd s = CHR 0x22 \<Longrightarrow>
     scan_once (Suc n) s =
       (case scan_string (tl s) of None \<Rightarrow> None | Some (chars, rest) \<Rightarrow> Some (JString chars, rest))"
  by simp

lemma scan_once_object:
  "s \<noteq> [] \<Longrightarrow> hd s = CHR ''{'' \<Longrightarrow>
     scan_once (Suc n) s =
       (if skip_ws (tl s) = [] then None
        else if hd (skip_ws (tl s)) = CHR ''}'' then Some (JObject [], tl (skip_ws (tl s)))
        else if hd (skip_ws (tl s)) = CHR 0x22 then scan_members n (tl (skip_ws (tl s))) []
        else None)"
  by (simp add: Let_def)

lemma scan_once_array:
  "s \<noteq> [] \<Longrightarrow> hd s = CHR ''['' \<Longrightarrow>
     scan_once (Suc n) s =
       (if skip_ws (tl s) = [] then None
        else if hd (skip_ws (tl s)) = CHR '']'' then Some (JArray [], tl (skip_ws (tl s)))
        else scan_elements n (skip_ws (tl s)) [])"
  by (simp add: Let_def)

lemma scan_once_scalar:
  "s \<noteq> [] \<Longrightarrow> hd s \<noteq> CHR 0x22 \<Longrightarrow> hd s \<noteq> CHR ''{'' \<Longrightarrow> hd s \<noteq> CHR ''['' \<Longrightarrow>
     scan_once (Suc n) s = scan_once (Suc 0) s"
  by simp

lemma scan_once_empty: "scan_once n [] = None"
  by (cases n) simp_all

lemma scan_members_step:
  assumes "scan_string s = Some (key, r)"
    and "skip_ws r \<noteq> []" and "hd (skip_ws r) = CHR '':''"
    and "scan_once n (skip_ws (tl (skip_ws r))) = Some (v', r2)"
  shows "scan_members (Suc n) s pairs =
       (if skip_ws r2 = [] then None
        else if hd (skip_ws r2) = CHR ''}''
        then Some (JObject (AList.update key v' pairs), tl (skip_ws r2))
        else if hd (skip_ws r2) = CHR '','' then
          (if skip_ws (tl (skip_ws r2)) = [] \<or> hd (skip_ws (tl (skip_ws r2))) \<noteq> CHR 0x22
           then None
           else scan_members n (tl (skip_ws (tl (skip_ws r2)))) (AList.update key v' pairs))
        else None)"
  using assms by (simp add: Let_def)

lemma scan_elements_step:
  assumes "scan_once n s = Some (v', r)"
  shows "scan_elements (Suc n) s elements =
       (if skip_ws r = [] then None
        else if hd (skip_ws r) = CHR '']'' then Some (JArray (elements @ [v']), tl (skip_ws r))
        else if hd (skip_ws r) = CHR '','' then
          scan_elements n (skip_ws (tl (skip_ws r))) (elements @ [v'])
        else None)"
  using assms by (simp add: Let_def)

lemma scan_members_parts:
  assumes "scan_members (Suc n) s pairs = Some (v, rest)"
  obtains key r v' r2 where "scan_string s = Some (key, r)"
    and "skip_ws r \<noteq> []" and "hd (skip_ws r) = CHR '':''"
    and "scan_once n (skip_ws (tl (skip_ws r))) = Some (v', r2)"
proof -
  from assms obtain key r where k: "scan_string s = Some (key, r)"
    by (cases "scan_string s") auto
  from assms k have c: "skip_ws r \<noteq> []" "hd (skip_ws r) = CHR '':''"
    by (simp_all add: Let_def split: if_splits)
  from assms k c obtain v' r2 where "scan_once n (skip_ws (tl (skip_ws r))) = Some (v', r2)"
    by (cases "scan_once n (skip_ws (tl (skip_ws r)))") (auto simp: Let_def)
  with k c that show thesis by blast
qed

lemma scan_elements_parts:
  assumes "scan_elements (Suc n) s elements = Some (v, rest)"
  obtains v' r where "scan_once n s = Some (v', r)"
  using assms by (cases "scan_once n s") auto

lemma scan_once_enough_step:
  assumes mem: "\<And>s pairs v rest m. scan_members n s pairs = Some (v, rest) \<Longrightarrow>
      length s - length rest \<le> m \<Longrightarrow> scan_members m s pairs = Some (v, rest)"
    and els: "\<And>s elements v rest m. scan_elements n s elements = Some (v, rest) \<Longrightarrow>
      length s - length rest \<le> m \<Longrightarrow> scan_elements m s elements = Some (v, rest)"
    and a: "scan_once (Suc n) s = Some (v, rest)"
    and b: "length s - length rest \<le> m"
  shows "scan_once m s = Some (v, rest)"
proof -
  from scan_shorter [of "Suc n"] a have sh: "length rest < length s" by blast
  with b obtain m' where m: "m = Suc m'" by (cases m) auto
  from a have ne: "s \<noteq> []" by (cases s) simp_all
  let ?r = "skip_ws (tl s)"
  from ne skip_ws_length [of "tl s"] have r: "length ?r < length s" by (cases s) simp_all
  consider (str) "hd s = CHR 0x22"
    | (obj) "hd s = CHR ''{''"
    | (arr) "hd s = CHR ''[''"
    | (lit) "hd s \<noteq> CHR 0x22" "hd s \<noteq> CHR ''{''" "hd s \<noteq> CHR ''[''"
    by blast
  then show ?thesis
  proof cases
    case str
    from a show ?thesis unfolding m scan_once_string [OF ne str] .
  next
    case obj
    note u = scan_once_object [OF ne obj]
    from a have a': "(if ?r = [] then None
        else if hd ?r = CHR ''}'' then Some (JObject [], tl ?r)
        else if hd ?r = CHR 0x22 then scan_members n (tl ?r) []
        else None) = Some (v, rest)"
      unfolding u .
    show ?thesis
    proof (cases "?r \<noteq> [] \<and> hd ?r \<noteq> CHR ''}'' \<and> hd ?r = CHR 0x22")
      case True
      with a' have sm: "scan_members n (tl ?r) [] = Some (v, rest)" by simp
      from r have "length (tl ?r) - length rest \<le> length s - length rest - 1" by simp
      with b m have "length (tl ?r) - length rest \<le> m'" by simp
      from mem [OF sm this] True show ?thesis unfolding m u by simp
    next
      case False
      with a' show ?thesis unfolding m u by (simp split: if_splits)
    qed
  next
    case arr
    note u = scan_once_array [OF ne arr]
    from a have a': "(if ?r = [] then None
        else if hd ?r = CHR '']'' then Some (JArray [], tl ?r)
        else scan_elements n ?r []) = Some (v, rest)"
      unfolding u .
    show ?thesis
    proof (cases "?r \<noteq> [] \<and> hd ?r \<noteq> CHR '']''")
      case True
      with a' have se: "scan_elements n ?r [] = Some (v, rest)" by simp
      from r have "length ?r - length rest \<le> length s - length rest - 1" by simp
      with b m have "length ?r - length rest \<le> m'" by simp
      from els [OF se this] True show ?thesis unfolding m u by simp
    next
      case False
      with a' show ?thesis unfolding m u by (simp split: if_splits)
    qed
  next
    case lit
    from a show ?thesis
      unfolding m scan_once_scalar [OF ne lit, of n] scan_once_scalar [OF ne lit, of m'] .
  qed
qed

lemma scan_members_enough_step:
  assumes once: "\<And>s v rest m. scan_once n s = Some (v, rest) \<Longrightarrow>
      length s - length rest \<le> m \<Longrightarrow> scan_once m s = Some (v, rest)"
    and mem: "\<And>s pairs v rest m. scan_members n s pairs = Some (v, rest) \<Longrightarrow>
      length s - length rest \<le> m \<Longrightarrow> scan_members m s pairs = Some (v, rest)"
    and a: "scan_members (Suc n) s pairs = Some (v, rest)"
    and b: "length s - length rest \<le> m"
  shows "scan_members m s pairs = Some (v, rest)"
proof -
  from scan_shorter [of "Suc n"] a have sh: "length rest < length s" by blast
  with b obtain m' where m: "m = Suc m'" by (cases m) auto
  from a obtain key r v' r2 where k: "scan_string s = Some (key, r)"
    and c: "skip_ws r \<noteq> []" "hd (skip_ws r) = CHR '':''"
    and o: "scan_once n (skip_ws (tl (skip_ws r))) = Some (v', r2)"
    by (rule scan_members_parts)
  let ?s2 = "skip_ws (tl (skip_ws r))"
  let ?r3 = "skip_ws r2"
  let ?r4 = "skip_ws (tl ?r3)"
  note u = scan_members_step [OF k c o, of pairs]
  from a have a': "(if ?r3 = [] then None
        else if hd ?r3 = CHR ''}'' then Some (JObject (AList.update key v' pairs), tl ?r3)
        else if hd ?r3 = CHR '','' then
          (if ?r4 = [] \<or> hd ?r4 \<noteq> CHR 0x22 then None
           else scan_members n (tl ?r4) (AList.update key v' pairs))
        else None) = Some (v, rest)"
    unfolding u .
  from scan_string_shorter [OF k] skip_ws_length [of r] have r1: "length (skip_ws r) < length s"
    by simp
  from c(1) skip_ws_length [of "tl (skip_ws r)"] r1 have s2: "length ?s2 < length s - 1"
    by (cases "skip_ws r") simp_all
  from scan_shorter [of n] o have o_sh: "length r2 < length ?s2" by blast
  have t4: "length (tl ?r4) \<le> length r2"
    using tl_skip_ws_length [of "tl ?r3"] skip_ws_length [of r2] by (cases ?r3) simp_all
  let ?again = "?r3 \<noteq> [] \<and> hd ?r3 \<noteq> CHR ''}'' \<and> hd ?r3 = CHR '','' \<and>
      \<not> (?r4 = [] \<or> hd ?r4 \<noteq> CHR 0x22)"
  have rest_le: "length rest \<le> length r2"
  proof (cases ?again)
    case True
    with a' have "scan_members n (tl ?r4) (AList.update key v' pairs) = Some (v, rest)" by simp
    with scan_shorter [of n] have "length rest < length (tl ?r4)" by blast
    with t4 show ?thesis by simp
  next
    case False
    with a' have "rest = tl ?r3" by (simp split: if_splits)
    with skip_ws_length [of r2] show ?thesis by (cases ?r3) simp_all
  qed
  from rest_le s2 b m have "length ?s2 - length r2 \<le> m'" by simp
  from once [OF o this] have o': "scan_once m' ?s2 = Some (v', r2)" .
  note u' = scan_members_step [OF k c o', of pairs]
  show ?thesis
  proof (cases ?again)
    case True
    with a' have sm: "scan_members n (tl ?r4) (AList.update key v' pairs) = Some (v, rest)"
      by simp
    from t4 o_sh s2 have "length (tl ?r4) < length s - 1" by simp
    with b m have "length (tl ?r4) - length rest \<le> m'" by simp
    from mem [OF sm this] True show ?thesis unfolding m u' by simp
  next
    case False
    with a' show ?thesis unfolding m u' by (simp split: if_splits)
  qed
qed

lemma scan_elements_enough_step:
  assumes once: "\<And>s v rest m. scan_once n s = Some (v, rest) \<Longrightarrow>
      length s - length rest \<le> m \<Longrightarrow> scan_once m s = Some (v, rest)"
    and els: "\<And>s elements v rest m. scan_elements n s elements = Some (v, rest) \<Longrightarrow>
      length s - length rest \<le> m \<Longrightarrow> scan_elements m s elements = Some (v, rest)"
    and a: "scan_elements (Suc n) s elements = Some (v, rest)"
    and b: "length s - length rest \<le> m"
  shows "scan_elements m s elements = Some (v, rest)"
proof -
  from scan_shorter [of "Suc n"] a have sh: "length rest < length s" by blast
  with b obtain m' where m: "m = Suc m'" by (cases m) auto
  from a obtain v' r where o: "scan_once n s = Some (v', r)"
    by (rule scan_elements_parts)
  let ?r1 = "skip_ws r"
  let ?s2 = "skip_ws (tl ?r1)"
  note u = scan_elements_step [OF o, of elements]
  from a have a': "(if ?r1 = [] then None
        else if hd ?r1 = CHR '']'' then Some (JArray (elements @ [v']), tl ?r1)
        else if hd ?r1 = CHR '','' then scan_elements n ?s2 (elements @ [v'])
        else None) = Some (v, rest)"
    unfolding u .
  from scan_shorter [of n] o have r: "length r < length s" by blast
  from a' have ne: "?r1 \<noteq> []" by (simp split: if_splits)
  have s2: "length ?s2 < length r"
    using ne skip_ws_length [of "tl ?r1"] skip_ws_length [of r] by (cases ?r1) simp_all
  let ?again = "hd ?r1 \<noteq> CHR '']'' \<and> hd ?r1 = CHR '',''"
  have rest_lt: "length rest < length r"
  proof (cases ?again)
    case True
    with a' ne have "scan_elements n ?s2 (elements @ [v']) = Some (v, rest)" by simp
    with scan_shorter [of n] have "length rest < length ?s2" by blast
    with s2 show ?thesis by simp
  next
    case False
    with a' ne have "rest = tl ?r1" by (simp split: if_splits)
    with ne skip_ws_length [of r] show ?thesis by (cases ?r1) simp_all
  qed
  from rest_lt r b m have "length s - length r \<le> m'" by simp
  from once [OF o this] have o': "scan_once m' s = Some (v', r)" .
  note u' = scan_elements_step [OF o', of elements]
  show ?thesis
  proof (cases ?again)
    case True
    with a' ne have se: "scan_elements n ?s2 (elements @ [v']) = Some (v, rest)" by simp
    from s2 r b m have "length ?s2 - length rest \<le> m'" by simp
    from els [OF se this] True ne show ?thesis unfolding m u' by simp
  next
    case False
    with a' show ?thesis unfolding m u' by (simp split: if_splits)
  qed
qed

lemma scan_enough:
  "(\<forall>s v rest m. scan_once n s = Some (v, rest) \<longrightarrow> length s - length rest \<le> m \<longrightarrow>
      scan_once m s = Some (v, rest)) \<and>
   (\<forall>s pairs v rest m. scan_members n s pairs = Some (v, rest) \<longrightarrow>
      length s - length rest \<le> m \<longrightarrow> scan_members m s pairs = Some (v, rest)) \<and>
   (\<forall>s elements v rest m. scan_elements n s elements = Some (v, rest) \<longrightarrow>
      length s - length rest \<le> m \<longrightarrow> scan_elements m s elements = Some (v, rest))"
proof (induction n)
  case 0
  show ?case by simp
next
  case (Suc n)
  then have once: "\<And>s v rest m. scan_once n s = Some (v, rest) \<Longrightarrow>
      length s - length rest \<le> m \<Longrightarrow> scan_once m s = Some (v, rest)"
    and mem: "\<And>s pairs v rest m. scan_members n s pairs = Some (v, rest) \<Longrightarrow>
      length s - length rest \<le> m \<Longrightarrow> scan_members m s pairs = Some (v, rest)"
    and els: "\<And>s elements v rest m. scan_elements n s elements = Some (v, rest) \<Longrightarrow>
      length s - length rest \<le> m \<Longrightarrow> scan_elements m s elements = Some (v, rest)"
    by blast+
  show ?case
    using scan_once_enough_step [OF mem els]
      scan_members_enough_step [OF once mem]
      scan_elements_enough_step [OF once els]
    by blast
qed

text \<open>
  The fuel of \<open>json_decode\<close> is enough: a text it does not decode is decoded with no
  amount of fuel.
\<close>

lemma json_decode_fuel:
  "json_decode s = None \<longleftrightarrow>
     (\<forall>n v rest. scan_once n (skip_ws s) = Some (v, rest) \<longrightarrow> skip_ws rest \<noteq> [])"
proof
  assume none: "json_decode s = None"
  show "\<forall>n v rest. scan_once n (skip_ws s) = Some (v, rest) \<longrightarrow> skip_ws rest \<noteq> []"
  proof (intro allI impI)
    fix n v rest
    assume a: "scan_once n (skip_ws s) = Some (v, rest)"
    have "length (skip_ws s) - length rest \<le> Suc (length s)"
      using skip_ws_length [of s] by simp
    with scan_enough [of n] a have "scan_once (Suc (length s)) (skip_ws s) = Some (v, rest)"
      by blast
    with none show "skip_ws rest \<noteq> []"
      by (auto simp: json_decode_def split: if_splits)
  qed
next
  assume all: "\<forall>n v rest. scan_once n (skip_ws s) = Some (v, rest) \<longrightarrow> skip_ws rest \<noteq> []"
  show "json_decode s = None"
  proof (cases "scan_once (Suc (length s)) (skip_ws s)")
    case None
    show ?thesis unfolding json_decode_def None by simp
  next
    case (Some p)
    obtain v rest where p: "p = (v, rest)" by (cases p)
    from all Some p have "skip_ws rest \<noteq> []" by blast
    then show ?thesis unfolding json_decode_def Some p by simp
  qed
qed

end
